theory Spec2Isabelle
  imports Main "HOL-Library.AList"
begin

section \<open>Strings: the helpers of Go's strings, strconv and fmt that the code calls\<close>

text \<open>
  A Go string is a byte sequence; it is modelled as \<open>string\<close>. The functions below are
  \<open>strings.HasPrefix\<close>, \<open>strings.Contains\<close>, \<open>strings.Join\<close> and \<open>strconv.Itoa\<close>.
\<close>

definition HasPrefix :: "string \<Rightarrow> string \<Rightarrow> bool" where
  "HasPrefix s p = (take (length p) s = p)"

fun Contains :: "string \<Rightarrow> string \<Rightarrow> bool" where
  "Contains [] sub = (sub = [])"
| "Contains (c # cs) sub = (HasPrefix (c # cs) sub \<or> Contains cs sub)"

fun Join :: "string list \<Rightarrow> string \<Rightarrow> string" where
  "Join [] sep = []"
| "Join [x] sep = x"
| "Join (x # y # ys) sep = x @ sep @ Join (y # ys) sep"

definition digit_char :: "nat \<Rightarrow> char" where
  "digit_char n = ''0123456789'' ! n"

fun FormatUint :: "nat \<Rightarrow> string" where
  "FormatUint n =
     (if n < 10 then [digit_char n] else FormatUint (n div 10) @ [digit_char (n mod 10)])"

declare FormatUint.simps [simp del]

text \<open>
  \<open>strconv.Itoa\<close>. Go's \<open>int\<close> is 64 bits wide on the platforms the service runs on; the
  rendering is exact on every value, so the argument is an unbounded \<open>int\<close> here.
\<close>

definition Itoa :: "int \<Rightarrow> string" where
  "Itoa i = (if i < 0 then CHR ''-'' # FormatUint (nat (- i)) else FormatUint (nat i))"

section \<open>Schema configuration (schema/config.go)\<close>

text \<open>
  \<open>Case\<close>, \<open>Field\<close>, \<open>Index\<close>, \<open>Schema\<close>, \<open>EntitySchema\<close>, \<open>Global\<close> and \<open>Config\<close>.
  A Go slice whose only use is \<open>len\<close> and \<open>range\<close> is a list; \<open>Field.Enum\<close> is compared
  with \<open>nil\<close>, so it is an optional list (\<open>None\<close> is \<open>nil\<close>). A pointer that may be
  \<open>nil\<close> is an option. \<open>Config.Entities\<close> is a Go map that the code only ranges over, in
  an order the language leaves open: it is the list of its entries in the order of one
  iteration.
\<close>

record Case =
  case_Strict :: bool
  case_Type :: string

record Field =
  field_Name :: string
  field_Type :: string
  field_Required :: bool
  field_Pattern :: string
  field_Case :: "Case option"
  field_Enum :: "string list option"
  field_Dependents :: "string list"
  field_Description :: string

record Index =
  Keys :: "string list"
  Unique :: bool
  Direction :: "int list"
  Sparse :: bool

record Schema =
  Fields :: "Field list"
  AdditionalProperties :: bool
  Indexes :: "Index list"
  ValidationLevel :: string

record EntitySchema =
  entity_Schema :: "Schema option"

record Global =
  SchemaValidationConfig_Case :: Case

record Config =
  Entities :: "(string \<times> EntitySchema) list"
  config_Global :: Global

section \<open>Errors\<close>

text \<open>
  The package's sentinel errors keep their names. \<open>DriverError m\<close> is an error returned
  by the MongoDB driver, with its message. The three \<open>fmt.Errorf\<close> errors of the package
  are constructors that carry the values formatted into their message. \<open>RuntimePanic\<close>
  stands for a Go run-time panic (an index out of range), which is not an error value
  in Go but ends the call all the same. \<open>Wrapf e f\<close> is
  \<open>errors.Wrapf(e, f, ...)\<close> of github.com/pkg/errors; \<open>f\<close> is the format string, whose
  arguments are not rendered (no branch of the code inspects a wrapped message).
  \<open>Cause\<close> is \<open>errors.Cause\<close>: it unwraps down to the innermost error.
\<close>

datatype error =
    errNoKeysForIndex
  | errTooManyKeysForIndex
  | errKeysAndDirectionsDoNotMatch
  | errInvalidIndexDirection
  | errIndexSparseAndUnique
  | errInvalidFieldType
  | errEnumNotString
  | errFieldNameEmpty
  | DriverError string
  | ErrNoIndexesDefined string
  | ErrIndexNameNotString string
  | ErrInvalidValidationLevel string string
  | RuntimePanic
  | Wrapf error string

fun Cause :: "error \<Rightarrow> error" where
  "Cause (Wrapf e f) = Cause e"
| "Cause e = e"

fun Error :: "error \<Rightarrow> string" where
  "Error errNoKeysForIndex = ''no keys defined for index''"
| "Error errTooManyKeysForIndex = ''too many keys defined for index; max is 30''"
| "Error errKeysAndDirectionsDoNotMatch =
     ''number of keys and directions do not match for index''"
| "Error errInvalidIndexDirection =
     ''invalid direction for key(s) in index; must be 1 or -1''"
| "Error errIndexSparseAndUnique = ''index cannot be both sparse and unique''"
| "Error errInvalidFieldType =
     ''unsupported field type; only string, int, bool, object are supported''"
| "Error errEnumNotString = ''enums are only supported for string types''"
| "Error errFieldNameEmpty = ''field name cannot be empty''"
| "Error (DriverError m) = m"
| "Error (ErrNoIndexesDefined entity) =
     ''no indexes defined for '' @ entity @
     ''; at least one index should be defined for any entity''"
| "Error (ErrIndexNameNotString entity) =
     ''Failed to get index name for index from entity '' @ entity"
| "Error (ErrInvalidValidationLevel level entity) =
     ''invalid validation level '' @ level @ '' for entity '' @ entity"
| "Error RuntimePanic = ''runtime error: index out of range''"
| "Error (Wrapf e f) = f @ '': '' @ Error e"

section \<open>Index names (indexName, intSliceToString, toBSONIndex)\<close>

definition defaultIndexDirection :: int where
  "defaultIndexDirection = 1"

definition intSliceToString :: "int list \<Rightarrow> string list" where
  "intSliceToString slice = map Itoa slice"

definition indexNamePrefix :: "Index \<Rightarrow> string" where
  "indexNamePrefix index =
     (if Unique index then ''IL'' else if Sparse index then ''SPARSE'' else ''SL'')"

definition indexName :: "Index \<Rightarrow> string" where
  "indexName index =
     (if length (Keys index) = 0 then ''''
      else if length (Direction index) = 0
        then indexNamePrefix index @ ''_'' @ Join (Keys index) ''_''
      else indexNamePrefix index @ ''_'' @ Join (Keys index) ''_'' @ ''_'' @
           Join (intSliceToString (Direction index)) ''_'')"


text \<open>
  \<open>toBSONIndex\<close> reads \<open>index.Direction[i]\<close> for every key when directions are given;
  with fewer directions than keys the read is out of range and Go panics: \<open>None\<close>.
\<close>

fun zipDirections :: "string list \<Rightarrow> int list \<Rightarrow> (string \<times> int) list option" where
  "zipDirections [] ds = Some []"
| "zipDirections (k # ks) [] = None"
| "zipDirections (k # ks) (d # ds) =
     (case zipDirections ks ds of None \<Rightarrow> None | Some r \<Rightarrow> Some ((k, d) # r))"

definition toBSONIndex :: "Index \<Rightarrow> (string \<times> int) list option" where
  "toBSONIndex index =
     (if length (Direction index) = 0
      then Some (map (\<lambda>key. (key, defaultIndexDirection)) (Keys index))
      else zipDirections (Keys index) (Direction index))"

section \<open>The database, as the code sees it\<close>

text \<open>
  The MongoDB driver is outside the repository. The code calls four of its operations:
  \<open>coll.Indexes().CreateOne\<close>, \<open>coll.Indexes().List\<close> (with the cursor it returns),
  \<open>coll.Indexes().DropOne\<close> and \<open>db.RunCommand\<close>. A \<open>Backend\<close> gives each of them as
  a function of a database state of any type \<open>'db\<close>; an error is the driver's message.
  Nothing is assumed of what a backend does. A \<open>world\<close> is the database state together
  with the list of driver calls made so far, oldest first.
\<close>

record IndexModel =
  im_Keys :: "(string \<times> int) list"
  im_Unique :: bool
  im_Sparse :: bool
  im_Name :: string

datatype bson_value = BString string | BStrings "string list"

type_synonym fieldSchema = "(string \<times> bson_value) list"

record jsonSchema =
  js_bsonType :: string
  js_properties :: "(string \<times> fieldSchema) list"
  js_required :: "string list"
  js_additionalProperties :: bool
  js_dependencies :: "(string \<times> string list) list option"

text \<open>
  The \<open>collMod\<close> command document. \<open>cm_validator = None\<close> is the empty document
  \<open>bson.D{}\<close>; \<open>Some js\<close> is \<open>{"$jsonSchema": js}\<close>.
\<close>

record collModCommand =
  cm_collMod :: string
  cm_validator :: "jsonSchema option"
  cm_validationLevel :: string

text \<open>
  What a cursor over the index descriptions yields: a document that fails to decode, or
  a decoded description, of which the code reads \<open>index["name"].(string)\<close>
  (\<open>None\<close> when the assertion to string fails).
\<close>

datatype cursor_item = DecodeFails string | IndexDescription "string option"

record 'db Backend =
  CreateOne :: "'db \<Rightarrow> string \<Rightarrow> IndexModel \<Rightarrow> string option \<times> 'db"
  ListIndexes :: "'db \<Rightarrow> string \<Rightarrow> (string + cursor_item list \<times> string option) \<times> 'db"
  DropOne :: "'db \<Rightarrow> string \<Rightarrow> string \<Rightarrow> string option \<times> 'db"
  RunCommand :: "'db \<Rightarrow> collModCommand \<Rightarrow> string option \<times> 'db"

datatype db_call =
    Op_CreateOne string IndexModel
  | Op_ListIndexes string
  | Op_DropOne string string
  | Op_RunCommand collModCommand

record 'db world =
  db :: 'db
  calls :: "db_call list"

definition call_CreateOne ::
  "'db Backend \<Rightarrow> 'db world \<Rightarrow> string \<Rightarrow> IndexModel \<Rightarrow> string option \<times> 'db world" where
  "call_CreateOne B w coll m =
     (case CreateOne B (db w) coll m of
        (r, d) \<Rightarrow> (r, \<lparr>db = d, calls = calls w @ [Op_CreateOne coll m]\<rparr>))"

definition call_ListIndexes ::
  "'db Backend \<Rightarrow> 'db world \<Rightarrow> string \<Rightarrow>
     (string + cursor_item list \<times> string option) \<times> 'db world" where
  "call_ListIndexes B w coll =
     (case ListIndexes B (db w) coll of
        (r, d) \<Rightarrow> (r, \<lparr>db = d, calls = calls w @ [Op_ListIndexes coll]\<rparr>))"

definition call_DropOne ::
  "'db Backend \<Rightarrow> 'db world \<Rightarrow> string \<Rightarrow> string \<Rightarrow> string option \<times> 'db world" where
  "call_DropOne B w coll idx =
     (case DropOne B (db w) coll idx of
        (r, d) \<Rightarrow> (r, \<lparr>db = d, calls = calls w @ [Op_DropOne coll idx]\<rparr>))"

definition call_RunCommand ::
  "'db Backend \<Rightarrow> 'db world \<Rightarrow> collModCommand \<Rightarrow> string option \<times> 'db world" where
  "call_RunCommand B w c =
     (case RunCommand B (db w) c of
        (r, d) \<Rightarrow> (r, \<lparr>db = d, calls = calls w @ [Op_RunCommand c]\<rparr>))"

section \<open>createIndex\<close>

text \<open>
  The configuration checks, in the order of the source; \<open>None\<close> when all pass.
\<close>

definition indexConfigError :: "Index \<Rightarrow> error option" where
  "indexConfigError index =
     (if length (Keys index) = 0 then Some errNoKeysForIndex
      else if length (Keys index) > 30 then Some errTooManyKeysForIndex
      else if length (Direction index) > 0 \<and> length (Keys index) \<noteq> length (Direction index)
        then Some errKeysAndDirectionsDoNotMatch
      else if Sparse index \<and> Unique index then Some errIndexSparseAndUnique
      else if list_ex (\<lambda>direction. direction \<noteq> 1 \<and> direction \<noteq> - 1) (Direction index)
        then Some errInvalidIndexDirection
      else None)"

definition createIndex ::
  "'db Backend \<Rightarrow> 'db world \<Rightarrow> string \<Rightarrow> Index \<Rightarrow> (error + string) \<times> 'db world" where
  "createIndex B w coll index =
     (case indexConfigError index of
        Some e \<Rightarrow> (Inl (Wrapf e ''index: %s''), w)
      | None \<Rightarrow>
          (let name = indexName index in
           case toBSONIndex index of
             None \<Rightarrow> (Inl RuntimePanic, w)
           | Some bsonIndex \<Rightarrow>
               (case call_CreateOne B w coll
                       \<lparr>im_Keys = bsonIndex, im_Unique = Unique index,
                        im_Sparse = Sparse index, im_Name = name\<rparr> of
                  (Some m, w') \<Rightarrow>
                    (Inl (Wrapf (DriverError m) ''failed to create index %s with name %s''), w')
                | (None, w') \<Rightarrow> (Inr name, w'))))"

section \<open>existingIndexes and updateMongoIndexes\<close>

fun decode_names :: "string \<Rightarrow> cursor_item list \<Rightarrow> string list \<Rightarrow> error + string list" where
  "decode_names coll [] ret = Inr ret"
| "decode_names coll (DecodeFails m # items) ret =
     Inl (Wrapf (DriverError m) ''Failed to decode index description'')"
| "decode_names coll (IndexDescription None # items) ret =
     Inl (ErrIndexNameNotString coll)"
| "decode_names coll (IndexDescription (Some name) # items) ret =
     decode_names coll items (ret @ [name])"

definition existingIndexes ::
  "'db Backend \<Rightarrow> 'db world \<Rightarrow> string \<Rightarrow> (error + string list) \<times> 'db world" where
  "existingIndexes B w coll =
     (case call_ListIndexes B w coll of
        (Inl m, w') \<Rightarrow> (Inl (Wrapf (DriverError m) ''Failed to list indexes''), w')
      | (Inr (items, cursorErr), w') \<Rightarrow>
          (case decode_names coll items [] of
             Inl e \<Rightarrow> (Inl e, w')
           | Inr ret \<Rightarrow>
               (case cursorErr of
                  Some m \<Rightarrow>
                    (Inl (Wrapf (DriverError m) ''Mongo cursor error when inspecting indexes''), w')
                | None \<Rightarrow> (Inr ret, w'))))"

definition buildInProgress :: string where
  "buildInProgress = ''Existing index build in progress on the same collection''"

text \<open>
  The first loop of \<open>updateMongoIndexes\<close>. \<open>createdIndexes\<close> is a Go map used as a set;
  it is the list of the names added, tested by membership. The result is \<open>Inl err\<close>
  for the \<open>return err\<close> of the loop, and \<open>Inr createdIndexes\<close> when the loop ends or
  is left by \<open>break\<close>.
\<close>

fun create_loop ::
  "'db Backend \<Rightarrow> 'db world \<Rightarrow> string \<Rightarrow> Index list \<Rightarrow> string list \<Rightarrow>
     (error + string list) \<times> 'db world" where
  "create_loop B w coll [] createdIndexes = (Inr createdIndexes, w)"
| "create_loop B w coll (index # rest) createdIndexes =
     (case createIndex B w coll index of
        (Inl err, w') \<Rightarrow>
          (if Contains (Error (Cause err)) buildInProgress
           then (Inr createdIndexes, w')
           else (Inl err, w'))
      | (Inr idxName, w') \<Rightarrow> create_loop B w' coll rest (createdIndexes @ [idxName]))"

text \<open>The second loop: drop what exists, was not created above and is no system index.\<close>

fun drop_loop ::
  "'db Backend \<Rightarrow> 'db world \<Rightarrow> string \<Rightarrow> string list \<Rightarrow> string list \<Rightarrow>
     error option \<times> 'db world" where
  "drop_loop B w coll [] createdIndexes = (None, w)"
| "drop_loop B w coll (idx # rest) createdIndexes =
     (if idx \<notin> set createdIndexes \<and> \<not> HasPrefix idx ''_''
      then (case call_DropOne B w coll idx of
              (Some m, w') \<Rightarrow>
                (if Contains m ''index not found''
                 then drop_loop B w' coll rest createdIndexes
                 else (Some (Wrapf (DriverError m) ''failed to drop index %s for %s''), w'))
            | (None, w') \<Rightarrow> drop_loop B w' coll rest createdIndexes)
      else drop_loop B w coll rest createdIndexes)"

definition drop_obsolete ::
  "'db Backend \<Rightarrow> 'db world \<Rightarrow> string \<Rightarrow> string list \<Rightarrow> error option \<times> 'db world" where
  "drop_obsolete B w coll createdIndexes =
     (case existingIndexes B w coll of
        (Inl err, w') \<Rightarrow> (Some (Wrapf err ''failed to get existing indexes for %s''), w')
      | (Inr existing, w') \<Rightarrow> drop_loop B w' coll existing createdIndexes)"

definition updateMongoIndexes ::
  "'db Backend \<Rightarrow> 'db world \<Rightarrow> string \<Rightarrow> Index list \<Rightarrow> error option \<times> 'db world" where
  "updateMongoIndexes B w entity indexes =
     (if length indexes = 0 then (Some (ErrNoIndexesDefined entity), w)
      else (case create_loop B w entity indexes [] of
              (Inl err, w') \<Rightarrow> (Some err, w')
            | (Inr createdIndexes, w') \<Rightarrow> drop_obsolete B w' entity createdIndexes))"

section \<open>JSON-schema validation\<close>

definition defaultJSONSchemaValidationLevel :: string where
  "defaultJSONSchemaValidationLevel = ''moderate''"

definition disableMongoJSONValidation ::
  "'db Backend \<Rightarrow> 'db world \<Rightarrow> string \<Rightarrow> error option \<times> 'db world" where
  "disableMongoJSONValidation B w entity =
     (case call_RunCommand B w
             \<lparr>cm_collMod = entity, cm_validator = None, cm_validationLevel = ''off''\<rparr> of
        (Some m, w') \<Rightarrow>
          (Some (Wrapf (DriverError m)
                   ''failed to remove JSON schema validation for entity %s''), w')
      | (None, w') \<Rightarrow> (None, w'))"

text \<open>
  The three pattern constants. A backslash cannot be written inside a HOL string
  literal, so each backslash of the Go raw string is the character \<open>bsl\<close>, appended
  in place. The Go source reads
  \<^verbatim>\<open>regexLowerCase = `^[a-z0-9\W_]+$`\<close>,
  \<^verbatim>\<open>regexRFC3339 = `^\d{4}-\d{2}-\d{2}T\d{2}:\d{2}:\d{2}(\.\d+)?([+-]\d{2}:\d{2}|Z)$`\<close>,
  \<^verbatim>\<open>regexInt64 = `^(-?(0|[1-9]\d{0,18})|922337203685477580[0-7]|-9223372036854775808)$`\<close>.
\<close>

definition bsl :: char where
  "bsl = CHR 0x5C"

definition regexLowerCase :: string where
  "regexLowerCase = ''^[a-z0-9'' @ [bsl] @ ''W_]+$''"

definition regexRFC3339 :: string where
  "regexRFC3339 =
     ''^'' @ [bsl] @ ''d{4}-'' @ [bsl] @ ''d{2}-'' @ [bsl] @ ''d{2}T'' @ [bsl] @ ''d{2}:'' @
     [bsl] @ ''d{2}:'' @ [bsl] @ ''d{2}('' @ [bsl] @ ''.'' @ [bsl] @ ''d+)?([+-]'' @ [bsl] @
     ''d{2}:'' @ [bsl] @ ''d{2}|Z)$''"

definition regexInt64 :: string where
  "regexInt64 =
     ''^(-?(0|[1-9]'' @ [bsl] @
     ''d{0,18})|922337203685477580[0-7]|-9223372036854775808)$''"

text \<open>
  \<open>BSONSchemaValidator\<close>. The three accumulators of the loop, in a record; a Go map that
  is assigned by key is an association list updated by key (\<open>AList.update\<close>), read with
  \<open>map_of\<close>.
\<close>

record bsv_acc =
  requiredFields :: "string list"
  dependents :: "(string \<times> string list) list"
  properties :: "(string \<times> fieldSchema) list"

text \<open>The \<open>switch field.Type\<close> that gives the BSON type; \<open>None\<close> is its default branch.\<close>

definition bsonTypeOf :: "string \<Rightarrow> string option" where
  "bsonTypeOf t =
     (if t = ''string'' \<or> t = ''bool'' \<or> t = ''object'' then Some t
      else if t = ''int'' then Some ''long''
      else if t = ''datetime'' \<or> t = ''int-str'' \<or> t = ''bool-str'' then Some ''string''
      else None)"

text \<open>The \<open>switch\<close> that applies a pattern or a casing rule to \<open>fieldSchema\<close>.\<close>

definition applyConstraint :: "Case \<Rightarrow> Field \<Rightarrow> string \<Rightarrow> fieldSchema \<Rightarrow> fieldSchema" where
  "applyConstraint globalCase field bsonType fs =
     (let effectiveCase = (case field_Case field of None \<Rightarrow> globalCase | Some c \<Rightarrow> c) in
      if field_Pattern field \<noteq> [] then
        AList.update ''pattern'' (BString (field_Pattern field)) fs
      else if field_Enum field \<noteq> None \<and> length (the (field_Enum field)) > 0 then
        AList.update ''enum'' (BStrings (the (field_Enum field))) fs
      else if field_Type field = ''datetime'' then
        AList.update ''pattern'' (BString regexRFC3339) fs
      else if field_Type field = ''int-str'' then
        AList.update ''pattern'' (BString regexInt64) fs
      else if field_Type field = ''bool-str'' then
        AList.update ''enum'' (BStrings [''true'', ''false'']) fs
      else if case_Strict effectiveCase \<and> bsonType = ''string'' then
        (if case_Type effectiveCase = ''lower''
         then AList.update ''pattern'' (BString regexLowerCase) fs
         else fs)
      else fs)"

text \<open>One iteration of the loop over \<open>schema.Fields\<close>; \<open>Inl\<close> is its \<open>return nil, err\<close>.\<close>

definition field_step :: "Case \<Rightarrow> Field \<Rightarrow> bsv_acc \<Rightarrow> error + bsv_acc" where
  "field_step globalCase field acc =
     (if field_Name field = [] then
        Inl (Wrapf errFieldNameEmpty ''field of type %s has an empty name'')
      else
        (case bsonTypeOf (field_Type field) of
           None \<Rightarrow> Inl (Wrapf errInvalidFieldType ''field %s is of type %q'')
         | Some bsonType \<Rightarrow>
             (if field_Type field \<noteq> ''string'' \<and> field_Enum field \<noteq> None then
                Inl (Wrapf errEnumNotString ''field %s is of type %q'')
              else
                (let fieldSchema =
                       applyConstraint globalCase field bsonType
                         [(''bsonType'', BString bsonType)];
                     acc1 = acc\<lparr>properties :=
                               AList.update (field_Name field) fieldSchema (properties acc)\<rparr>;
                     acc2 = (if field_Required field
                             then acc1\<lparr>requiredFields :=
                                        requiredFields acc1 @ [field_Name field]\<rparr>
                             else acc1);
                     acc3 = (if length (field_Dependents field) > 0
                             then acc2\<lparr>dependents :=
                                        AList.update (field_Name field)
                                          (field_Dependents field) (dependents acc2)\<rparr>
                             else acc2)
                 in Inr acc3))))"

fun fields_loop :: "Case \<Rightarrow> Field list \<Rightarrow> bsv_acc \<Rightarrow> error + bsv_acc" where
  "fields_loop globalCase [] acc = Inr acc"
| "fields_loop globalCase (field # rest) acc =
     (case field_step globalCase field acc of
        Inl err \<Rightarrow> Inl err
      | Inr acc' \<Rightarrow> fields_loop globalCase rest acc')"

definition BSONSchemaValidator :: "Schema \<Rightarrow> Case \<Rightarrow> error + jsonSchema" where
  "BSONSchemaValidator schema globalCase =
     (case fields_loop globalCase (Fields schema)
             \<lparr>requiredFields = [], dependents = [], properties = []\<rparr> of
        Inl err \<Rightarrow> Inl err
      | Inr acc \<Rightarrow>
          Inr \<lparr>js_bsonType = ''object'',
               js_properties = properties acc,
               js_required = requiredFields acc,
               js_additionalProperties = AdditionalProperties schema,
               js_dependencies =
                 (if length (dependents acc) > 0 then Some (dependents acc) else None)\<rparr>)"

definition updateMongoJSONValidation ::
  "'db Backend \<Rightarrow> 'db world \<Rightarrow> string \<Rightarrow> Schema \<Rightarrow> Global \<Rightarrow> error option \<times> 'db world" where
  "updateMongoJSONValidation B w entity schema global =
     (if length (Fields schema) = 0 then disableMongoJSONValidation B w entity
      else
        (case BSONSchemaValidator schema (SchemaValidationConfig_Case global) of
           Inl err \<Rightarrow> (Some (Wrapf err ''failed to create schema validator for %s''), w)
         | Inr validator \<Rightarrow>
             (let validationLevel = ValidationLevel schema in
              if validationLevel \<noteq> [] \<and> validationLevel \<noteq> ''moderate'' \<and>
                 validationLevel \<noteq> ''strict''
              then (Some (ErrInvalidValidationLevel validationLevel entity), w)
              else
                (case call_RunCommand B w
                        \<lparr>cm_collMod = entity, cm_validator = Some validator,
                         cm_validationLevel =
                           (if validationLevel = [] then defaultJSONSchemaValidationLevel
                            else validationLevel)\<rparr> of
                   (Some m, w') \<Rightarrow>
                     (Some (Wrapf (DriverError m) ''failed to update validator for entity %s''),
                      w')
                 | (None, w') \<Rightarrow> (None, w')))))"

section \<open>CreateOrUpdateMongoSchema\<close>

fun entities_loop ::
  "'db Backend \<Rightarrow> 'db world \<Rightarrow> Global \<Rightarrow> (string \<times> EntitySchema) list \<Rightarrow>
     error option \<times> 'db world" where
  "entities_loop B w global [] = (None, w)"
| "entities_loop B w global ((entity, validations) # rest) =
     (case entity_Schema validations of
        None \<Rightarrow>
          (case disableMongoJSONValidation B w entity of
             (Some err, w') \<Rightarrow> (Some err, w')
           | (None, w') \<Rightarrow> entities_loop B w' global rest)
      | Some schema \<Rightarrow>
          (case updateMongoIndexes B w entity (Indexes schema) of
             (Some err, w') \<Rightarrow>
               (Some (Wrapf err ''failed to ensure index creation for %s''), w')
           | (None, w') \<Rightarrow>
               (case updateMongoJSONValidation B w' entity schema global of
                  (Some err, w'') \<Rightarrow> (Some err, w'')
                | (None, w'') \<Rightarrow> entities_loop B w'' global rest)))"

definition CreateOrUpdateMongoSchema ::
  "'db Backend \<Rightarrow> 'db world \<Rightarrow> Config \<Rightarrow> error option \<times> 'db world" where
  "CreateOrUpdateMongoSchema B w config =
     entities_loop B w (config_Global config) (Entities config)"

section \<open>Notions used to state the properties of the schema manager\<close>

text \<open>
  The name of an index as the specification words it: a prefix by kind (\<open>IL_\<close> unique,
  \<open>SPARSE_\<close> sparse, \<open>SL_\<close> standard), the keys joined by underscores and, if
  directions were given, an underscore and the directions joined by underscores.
  \<open>underscore_joined\<close> puts an underscore before every element and drops the first.
\<close>

definition spec_kind_prefix :: "Index \<Rightarrow> string" where
  "spec_kind_prefix index =
     (if Unique index then ''IL_'' else if Sparse index then ''SPARSE_'' else ''SL_'')"

definition underscore_joined :: "string list \<Rightarrow> string" where
  "underscore_joined xs = tl (concat (map (\<lambda>x. CHR ''_'' # x) xs))"

definition spec_indexName :: "Index \<Rightarrow> string" where
  "spec_indexName index =
     spec_kind_prefix index @ underscore_joined (Keys index) @
     (if Direction index = [] then []
      else CHR ''_'' # underscore_joined (map Itoa (Direction index)))"

text \<open>
  The ways an index definition can be invalid, as the specification lists them.
\<close>

definition noKeys :: "Index \<Rightarrow> bool" where
  "noKeys index = (Keys index = [])"

definition tooManyKeys :: "Index \<Rightarrow> bool" where
  "tooManyKeys index = (30 < length (Keys index))"

definition directionsMismatch :: "Index \<Rightarrow> bool" where
  "directionsMismatch index =
     (Direction index \<noteq> [] \<and> length (Direction index) \<noteq> length (Keys index))"

definition badDirection :: "Index \<Rightarrow> bool" where
  "badDirection index = list_ex (\<lambda>d. d \<noteq> 1 \<and> d \<noteq> - 1) (Direction index)"

definition uniqueAndSparse :: "Index \<Rightarrow> bool" where
  "uniqueAndSparse index = (Unique index \<and> Sparse index)"

definition invalidIndex :: "Index \<Rightarrow> bool" where
  "invalidIndex index =
     (noKeys index \<or> tooManyKeys index \<or> directionsMismatch index \<or>
      badDirection index \<or> uniqueAndSparse index)"

text \<open>The collection a driver call addresses, and the kinds of call.\<close>

fun coll_of :: "db_call \<Rightarrow> string" where
  "coll_of (Op_CreateOne coll m) = coll"
| "coll_of (Op_ListIndexes coll) = coll"
| "coll_of (Op_DropOne coll idx) = coll"
| "coll_of (Op_RunCommand c) = cm_collMod c"


fun is_index_call :: "db_call \<Rightarrow> bool" where
  "is_index_call (Op_RunCommand c) = False"
| "is_index_call c = True"

text \<open>The driver calls made between two worlds: what the later log has beyond the earlier.\<close>

definition new_calls :: "'db world \<Rightarrow> 'db world \<Rightarrow> db_call list" where
  "new_calls w w' = drop (length (calls w)) (calls w')"

definition extends :: "'db world \<Rightarrow> 'db world \<Rightarrow> bool" where
  "extends w w' = (take (length (calls w)) (calls w') = calls w)"

text \<open>
  A backend without state that answers from a script: \<open>create_err\<close> gives the error of
  \<open>CreateOne\<close> by index name, \<open>listing\<close> is what the cursor of \<open>List\<close> yields,
  \<open>drop_err\<close> gives the error of \<open>DropOne\<close> by index name and \<open>cmd_err\<close> the error of
  \<open>RunCommand\<close>. It provides the concrete instances below.
\<close>

definition scripted ::
  "(string \<Rightarrow> string option) \<Rightarrow> cursor_item list \<Rightarrow> (string \<Rightarrow> string option) \<Rightarrow>
     string option \<Rightarrow> unit Backend" where
  "scripted create_err listing drop_err cmd_err =
     \<lparr>CreateOne = (\<lambda>d coll m. (create_err (im_Name m), d)),
      ListIndexes = (\<lambda>d coll. (Inr (listing, None), d)),
      DropOne = (\<lambda>d coll idx. (drop_err idx, d)),
      RunCommand = (\<lambda>d c. (cmd_err, d))\<rparr>"

definition w0 :: "unit world" where
  "w0 = \<lparr>db = (), calls = []\<rparr>"

text \<open>
  The error of the first configuration check that fails, in the order in which
  \<open>createIndex\<close> makes the checks.
\<close>

definition firstConfigError :: "Index \<Rightarrow> error" where
  "firstConfigError index =
     (if noKeys index then errNoKeysForIndex
      else if tooManyKeys index then errTooManyKeysForIndex
      else if directionsMismatch index then errKeysAndDirectionsDoNotMatch
      else if uniqueAndSparse index then errIndexSparseAndUnique
      else errInvalidIndexDirection)"

text \<open>
  The fields \<open>BSONSchemaValidator\<close> refuses: an empty name, an unsupported type, or an
  enum (not \<open>nil\<close>) on a field whose type is not \<open>string\<close>.
\<close>

definition supportedTypes :: "string list" where
  "supportedTypes =
     [''string'', ''int'', ''bool'', ''object'', ''datetime'', ''int-str'', ''bool-str'']"

definition badField :: "Field \<Rightarrow> bool" where
  "badField f =
     (field_Name f = [] \<or> field_Type f \<notin> set supportedTypes \<or>
      (field_Type f \<noteq> ''string'' \<and> field_Enum f \<noteq> None))"

text \<open>
  The value constraint of a field as the specification words it, by priority: an explicit
  pattern, then an enum, then the constraint of the types \<open>datetime\<close>, \<open>int-str\<close> and
  \<open>bool-str\<close>, then the case rule, which applies only to a field whose BSON type is
  string, under the field's own case configuration if it has one and the global one
  otherwise, when that is strict and of type \<open>lower\<close>. \<open>None\<close>: no constraint.
\<close>

definition effectiveCase :: "Case \<Rightarrow> Field \<Rightarrow> Case" where
  "effectiveCase globalCase f = (case field_Case f of None \<Rightarrow> globalCase | Some c \<Rightarrow> c)"

definition hasEnum :: "Field \<Rightarrow> bool" where
  "hasEnum f = (case field_Enum f of None \<Rightarrow> False | Some vs \<Rightarrow> vs \<noteq> [])"

definition typeConstraint :: "string \<Rightarrow> (string \<times> bson_value) option" where
  "typeConstraint t =
     (if t = ''datetime'' then Some (''pattern'', BString regexRFC3339)
      else if t = ''int-str'' then Some (''pattern'', BString regexInt64)
      else if t = ''bool-str'' then Some (''enum'', BStrings [''true'', ''false''])
      else None)"

definition caseConstraint :: "Case \<Rightarrow> Field \<Rightarrow> (string \<times> bson_value) option" where
  "caseConstraint globalCase f =
     (if bsonTypeOf (field_Type f) = Some ''string'' \<and>
         case_Strict (effectiveCase globalCase f) \<and>
         case_Type (effectiveCase globalCase f) = ''lower''
      then Some (''pattern'', BString regexLowerCase) else None)"

definition spec_constraint :: "Case \<Rightarrow> Field \<Rightarrow> (string \<times> bson_value) option" where
  "spec_constraint globalCase f =
     (if field_Pattern f \<noteq> [] then Some (''pattern'', BString (field_Pattern f))
      else if hasEnum f then Some (''enum'', BStrings (the (field_Enum f)))
      else if typeConstraint (field_Type f) \<noteq> None then typeConstraint (field_Type f)
      else caseConstraint globalCase f)"

text \<open>Concrete indexes, fields and backends for the instances below.\<close>

definition idx_compound :: Index where
  "idx_compound = \<lparr>Keys = [''app'', ''region'', ''env''], Unique = False,
                    Direction = [1, - 1, 1], Sparse = False\<rparr>"

definition idx_app :: Index where
  "idx_app = \<lparr>Keys = [''app''], Unique = False, Direction = [], Sparse = False\<rparr>"



definition B_ok :: "unit Backend" where
  "B_ok = scripted (\<lambda>n. None) [] (\<lambda>n. None) None"


text \<open>
  Go's zero values of \<open>Field\<close>, \<open>Schema\<close> and \<open>Case\<close>, from which a struct literal sets
  the fields it names, and schemas of \<open>TestBsonSchemaValidator\<close>.
\<close>

definition Field0 :: Field where
  "Field0 = \<lparr>field_Name = [], field_Type = [], field_Required = False, field_Pattern = [],
             field_Case = None, field_Enum = None, field_Dependents = [],
             field_Description = []\<rparr>"

definition Schema0 :: Schema where
  "Schema0 = \<lparr>Fields = [], AdditionalProperties = False, Indexes = [], ValidationLevel = []\<rparr>"

definition Case0 :: Case where
  "Case0 = \<lparr>case_Strict = False, case_Type = []\<rparr>"

definition case_lower :: Case where
  "case_lower = \<lparr>case_Strict = True, case_Type = ''lower''\<rparr>"

definition case_upper :: Case where
  "case_upper = \<lparr>case_Strict = True, case_Type = ''upper''\<rparr>"

definition field_status :: Field where
  "field_status = Field0\<lparr>field_Name := ''status'', field_Type := ''int'',
                          field_Enum := Some [''active'', ''inactive'', ''unknown'']\<rparr>"

definition field_name :: Field where
  "field_name = Field0\<lparr>field_Name := ''name'', field_Type := ''string'',
                        field_Required := True\<rparr>"

definition field_age :: Field where
  "field_age = Field0\<lparr>field_Name := ''age'', field_Type := ''int''\<rparr>"

definition field_userName :: Field where
  "field_userName = Field0\<lparr>field_Name := ''userName'', field_Type := ''string'',
                            field_Case := Some case_lower\<rparr>"

definition field_global :: Field where
  "field_global = Field0\<lparr>field_Name := ''global'', field_Type := ''bool'',
                          field_Case := Some case_lower\<rparr>"

definition schema_enum_int :: Schema where
  "schema_enum_int = Schema0\<lparr>Fields := [field_status], AdditionalProperties := True\<rparr>"

definition schema_mixed :: Schema where
  "schema_mixed = Schema0\<lparr>Fields := [field_name, field_age]\<rparr>"

definition schema_case :: Schema where
  "schema_case = Schema0\<lparr>Fields := [field_userName, field_global]\<rparr>"

text \<open>
  Every call between two worlds addresses the collection \<open>e\<close> and satisfies \<open>P\<close>, and
  the earlier log is kept.
\<close>

definition steps_on :: "string \<Rightarrow> (db_call \<Rightarrow> bool) \<Rightarrow> 'db world \<Rightarrow> 'db world \<Rightarrow> bool" where
  "steps_on e P w w' =
     (extends w w' \<and> list_all (\<lambda>c. coll_of c = e \<and> P c) (new_calls w w'))"

definition disableCommand :: "string \<Rightarrow> db_call" where
  "disableCommand entity =
     Op_RunCommand \<lparr>cm_collMod = entity, cm_validator = None, cm_validationLevel = ''off''\<rparr>"




definition model_of :: "Index \<Rightarrow> string \<Rightarrow> IndexModel" where
  "model_of index key =
     \<lparr>im_Keys = [(key, 1)], im_Unique = False, im_Sparse = False, im_Name = indexName index\<rparr>"


text \<open>
  A configuration of two entity types: \<open>nodes\<close> without a schema, and \<open>hosts\<close> with a
  schema of one index and no fields.
\<close>

definition cfg_two :: Config where
  "cfg_two =
     \<lparr>Entities =
        [(''nodes'', \<lparr>entity_Schema = None\<rparr>),
         (''hosts'', \<lparr>entity_Schema = Some (Schema0\<lparr>Indexes := [idx_app]\<rparr>)\<rparr>)],
      config_Global = \<lparr>SchemaValidationConfig_Case = Case0\<rparr>\<rparr>"

section \<open>The pattern of int-str fields as a regular expression\<close>
















section \<open>The entity store\<close>

text \<open>
  Entities are maps from label names to values. Besides the three value types of the
  specification, a value can be an object id, the type of the meta-label \<open>_id\<close>; object
  ids are opaque and are modelled as natural numbers.
\<close>

datatype val = VString string | VInt int | VBool bool | VObjectId nat

type_synonym Entity = "string \<rightharpoonup> val"

record WriteOp =
  wo_EntityType :: string
  wo_EntityId :: nat
  wo_Caller :: string
  wo_SetId :: string
  wo_SetOp :: string
  wo_SetSize :: int

record CDCEvent =
  cdc_Id :: nat
  cdc_Ts :: nat
  cdc_EntityId :: nat
  cdc_EntityType :: string
  cdc_EntityRev :: int
  cdc_Caller :: string
  cdc_Op :: string
  cdc_Old :: "Entity option"
  cdc_New :: "Entity option"
  cdc_SetId :: string
  cdc_SetOp :: string
  cdc_SetSize :: int

text \<open>
  The errors of the store, and the \<open>type\<close> each carries in the error taxonomy of the
  specification.
\<close>

datatype store_error = NoContent | InvalidParam | DuplicateEntity | EntityNotFound
  | DbFailure string

fun error_type :: "store_error \<Rightarrow> string" where
  "error_type NoContent = ''no-content''"
| "error_type InvalidParam = ''invalid-param''"
| "error_type DuplicateEntity = ''duplicate-entity''"
| "error_type EntityNotFound = ''entity-not-found''"
| "error_type (DbFailure m) = ''internal-error''"

text \<open>
  The state behind the store, for one entity type: the documents of the collection, the
  labels that carry a unique index, the failures of the database other than a duplicate
  key (\<open>db_fault\<close> gives the failure, if any, of the attempt to insert a document), the
  CDC events written so far, the supply of fresh object ids and event ids, and the
  clock.
\<close>

record Store =
  docs :: "Entity list"
  unique_labels :: "string list"
  db_fault :: "Entity \<Rightarrow> string option"
  cdc :: "CDCEvent list"
  next_id :: nat
  clock :: nat

datatype insert_outcome = Inserted | DupKey | Failed string

text \<open>
  What the database answers to the insertion of a document: a failure of its own, a
  duplicate key when a document of the collection has the same value under a label with
  a unique index, or success.
\<close>

definition insert_attempt :: "Store \<Rightarrow> Entity \<Rightarrow> insert_outcome" where
  "insert_attempt st e =
     (case db_fault st e of
        Some m \<Rightarrow> Failed m
      | None \<Rightarrow>
          if list_ex (\<lambda>u. list_ex (\<lambda>d. d u = e u) (docs st)) (unique_labels st)
          then DupKey else Inserted)"

definition write_event :: "WriteOp \<Rightarrow> string \<Rightarrow> nat \<Rightarrow> int \<Rightarrow> Entity option \<Rightarrow> Entity option \<Rightarrow>
    Store \<Rightarrow> Store" where
  "write_event wo op entityId entityRev old new st =
     st\<lparr>cdc := cdc st @
            [\<lparr>cdc_Id = next_id st, cdc_Ts = clock st, cdc_EntityId = entityId,
              cdc_EntityType = wo_EntityType wo, cdc_EntityRev = entityRev,
              cdc_Caller = wo_Caller wo, cdc_Op = op, cdc_Old = old, cdc_New = new,
              cdc_SetId = wo_SetId wo, cdc_SetOp = wo_SetOp wo,
              cdc_SetSize = wo_SetSize wo\<rparr>],
        next_id := Suc (next_id st)\<rparr>"

text \<open>
  Modelled from the spec: the operation \<open>Insert\<close> of the entity store
  (\<open>entity.Store.CreateEntities\<close>, in entity/store.go), whose source is not among the
  sources; only its test (entity/store_test.go) is. An empty batch is rejected with
  \<open>no-content\<close>; an entity that brings \<open>_id\<close> or \<open>_rev\<close>, or a \<open>_type\<close> other than the
  type of the write, with \<open>invalid-param\<close>. Then, for each entity in the order of the
  batch: a fresh \<open>_id\<close>, \<open>_type\<close> and \<open>_rev = 0\<close> are set and the insertion is attempted;
  on success a CDC event with \<open>Op = "i"\<close>, \<open>New\<close> the full entity and no \<open>Old\<close> is
  written; on a duplicate key the batch stops with \<open>duplicate-entity\<close>, on any other
  failure with a database error, in both cases with the ids inserted so far.
\<close>

definition stamp :: "WriteOp \<Rightarrow> nat \<Rightarrow> Entity \<Rightarrow> Entity" where
  "stamp wo i e =
     e(''_id'' \<mapsto> VObjectId i, ''_type'' \<mapsto> VString (wo_EntityType wo), ''_rev'' \<mapsto> VInt 0)"

definition caller_set_meta :: "WriteOp \<Rightarrow> Entity \<Rightarrow> bool" where
  "caller_set_meta wo e =
     (e ''_id'' \<noteq> None \<or> e ''_rev'' \<noteq> None \<or>
      (e ''_type'' \<noteq> None \<and> e ''_type'' \<noteq> Some (VString (wo_EntityType wo))))"

fun insert_loop :: "WriteOp \<Rightarrow> Entity list \<Rightarrow> nat list \<Rightarrow> Store \<Rightarrow>
    nat list \<times> store_error option \<times> Store" where
  "insert_loop wo [] ids st = (ids, None, st)"
| "insert_loop wo (e # rest) ids st =
     (let i = next_id st;
          e' = stamp wo i e;
          st1 = st\<lparr>next_id := Suc i\<rparr>
      in case insert_attempt st1 e' of
           DupKey \<Rightarrow> (ids, Some DuplicateEntity, st1)
         | Failed m \<Rightarrow> (ids, Some (DbFailure m), st1)
         | Inserted \<Rightarrow>
             insert_loop wo rest (ids @ [i])
               (write_event wo ''i'' i 0 None (Some e') (st1\<lparr>docs := docs st1 @ [e']\<rparr>)))"

definition CreateEntities :: "WriteOp \<Rightarrow> Entity list \<Rightarrow> Store \<Rightarrow>
    nat list \<times> store_error option \<times> Store" where
  "CreateEntities wo entities st =
     (if entities = [] then ([], Some NoContent, st)
      else if list_ex (caller_set_meta wo) entities then ([], Some InvalidParam, st)
      else insert_loop wo entities [] st)"

text \<open>
  Modelled from the spec: the operation \<open>DeleteLabel\<close> of the entity store
  (\<open>entity.Store.DeleteLabel\<close>, in entity/store.go), whose source is not among the
  sources; only its test is. A meta-label is refused with \<open>invalid-param\<close>; the entity
  is looked up by the id of the write, and \<open>entity-not-found\<close> is returned when there is
  none; else the label is removed, \<open>_rev\<close> is incremented, one CDC event with
  \<open>Op = "u"\<close> is written and the prior entity is returned. What the returned entity and
  the \<open>Old\<close> and \<open>New\<close> of the event hold is taken from the assertions of
  \<open>TestDeleteLabel\<close> (entity/store_test.go, lines 688 to 735), which is code of the
  repository: the prior entity is the prior values of \<open>_id\<close>, \<open>_type\<close>, \<open>_rev\<close> and of
  the label; \<open>New\<close> is \<open>_id\<close>, \<open>_type\<close> and the incremented \<open>_rev\<close>.
\<close>

definition metaLabels :: "string list" where
  "metaLabels = [''_id'', ''_type'', ''_rev'']"

definition rev_of :: "Entity \<Rightarrow> int" where
  "rev_of e = (case e ''_rev'' of Some (VInt r) \<Rightarrow> r | _ \<Rightarrow> 0)"

fun unset_label :: "nat \<Rightarrow> string \<Rightarrow> Entity list \<Rightarrow> Entity option \<times> Entity list" where
  "unset_label i label [] = (None, [])"
| "unset_label i label (d # ds) =
     (if d ''_id'' = Some (VObjectId i)
      then (Some d, (d(label := None, ''_rev'' \<mapsto> VInt (rev_of d + 1))) # ds)
      else (case unset_label i label ds of (r, ds') \<Rightarrow> (r, d # ds')))"

definition DeleteLabel :: "WriteOp \<Rightarrow> string \<Rightarrow> Store \<Rightarrow> (store_error + Entity) \<times> Store" where
  "DeleteLabel wo label st =
     (if label \<in> set metaLabels then (Inl InvalidParam, st)
      else
        (case unset_label (wo_EntityId wo) label (docs st) of
           (None, ds) \<Rightarrow> (Inl EntityNotFound, st)
         | (Some d, ds) \<Rightarrow>
             (let old = d |` set (label # metaLabels);
                  new = (old(label := None))(''_rev'' \<mapsto> VInt (rev_of d + 1))
              in (Inr old,
                  write_event wo ''u'' (wo_EntityId wo) (rev_of d + 1) (Some old) (Some new)
                    (st\<lparr>docs := ds\<rparr>)))))"

text \<open>
  The fixture of entity/store_test.go: three nodes, a unique index on \<open>x\<close>, and the
  write operation of the tests.
\<close>

definition node1 :: Entity where
  "node1 = [''_id'' \<mapsto> VObjectId 1, ''_type'' \<mapsto> VString ''nodes'', ''_rev'' \<mapsto> VInt 0,
            ''x'' \<mapsto> VInt 2, ''y'' \<mapsto> VString ''a'', ''z'' \<mapsto> VInt 9, ''foo'' \<mapsto> VString []]"

definition node2 :: Entity where
  "node2 = [''_id'' \<mapsto> VObjectId 2, ''_type'' \<mapsto> VString ''nodes'', ''_rev'' \<mapsto> VInt 0,
            ''x'' \<mapsto> VInt 4, ''y'' \<mapsto> VString ''b'', ''bar'' \<mapsto> VString []]"

definition node3 :: Entity where
  "node3 = [''_id'' \<mapsto> VObjectId 3, ''_type'' \<mapsto> VString ''nodes'', ''_rev'' \<mapsto> VInt 0,
            ''x'' \<mapsto> VInt 6, ''y'' \<mapsto> VString ''b'', ''bar'' \<mapsto> VString []]"

definition store_test :: Store where
  "store_test = \<lparr>docs = [node1, node2, node3], unique_labels = [''x''],
                  db_fault = (\<lambda>e. None), cdc = [], next_id = 4, clock = 0\<rparr>"

definition wo_test :: WriteOp where
  "wo_test = \<lparr>wo_EntityType = ''nodes'', wo_EntityId = 1, wo_Caller = ''test_user'',
               wo_SetId = [], wo_SetOp = [], wo_SetSize = 0\<rparr>"

definition x5 :: Entity where "x5 = [''x'' \<mapsto> VInt 5]"

definition x6 :: Entity where "x6 = [''x'' \<mapsto> VInt 6]"

definition x7 :: Entity where "x7 = [''x'' \<mapsto> VInt 7]"

text \<open>The events that a run of an operation adds to the CDC log.\<close>

definition new_events :: "Store \<Rightarrow> Store \<Rightarrow> CDCEvent list" where
  "new_events st st' = drop (length (cdc st)) (cdc st')"

section \<open>The trace header of a request\<close>

text \<open>
  \<open>strings.Split\<close> for a separator of one character, and the cut of a pair at its first
  \<open>=\<close> (\<open>None\<close> when the pair has none).
\<close>

fun Split :: "string \<Rightarrow> char \<Rightarrow> string list" where
  "Split [] sep = [[]]"
| "Split (c # cs) sep =
     (if c = sep then [] # Split cs sep
      else (case Split cs sep of [] \<Rightarrow> [[c]] | p # ps \<Rightarrow> (c # p) # ps))"

fun cut_pair :: "string \<Rightarrow> (string \<times> string) option" where
  "cut_pair [] = None"
| "cut_pair (c # cs) =
     (if c = CHR ''='' then Some ([], cs)
      else (case cut_pair cs of None \<Rightarrow> None | Some (k, v) \<Rightarrow> Some (c # k, v)))"

text \<open>
  A caller, as the tests build it. \<open>caller_Trace\<close> is a Go map that can be \<open>nil\<close>:
  \<open>None\<close> is \<open>nil\<close>, and a map is the list of its entries in the order in which the keys
  were set. A request is what \<open>Header.Get\<close> answers for a header name (the empty string
  for a header that is not set).
\<close>

record Caller =
  caller_Name :: string
  caller_Roles :: "string list"
  caller_MetricGroups :: "string list"
  caller_Trace :: "(string \<times> string) list option"

record ACL =
  acl_Role :: string
  acl_TraceKeysRequired :: "string list"

record Request =
  req_Header :: "string \<Rightarrow> string"

datatype auth_error = PluginError string | MissingTraceKey string

definition TRACE_HEADER :: string where
  "TRACE_HEADER = ''X-Etre-Trace''"

definition trace_lookup :: "(string \<times> string) list option \<Rightarrow> string \<Rightarrow> string option" where
  "trace_lookup trace k = (case trace of None \<Rightarrow> None | Some m \<Rightarrow> map_of m k)"

text \<open>
  Modelled from the spec: \<open>Authenticate\<close> of the auth manager (auth/manager.go), whose
  source is not among the sources; only its test (auth/auth_test.go) is. The plugin
  authenticates the request, and its error is returned as it is. Then the value of the
  \<open>X-Etre-Trace\<close> header, if not empty, is read as pairs separated by commas: a pair
  without \<open>=\<close> is dropped; of a pair \<open>key=value\<close> the value is stored under the key
  unless the trace has the key already; the trace map is created when the first pair is
  stored. With ACLs configured, a role of the caller that has an ACL with required trace
  keys makes the call fail when the trace lacks one of them.
\<close>

definition add_pair ::
  "(string \<times> string) list option \<Rightarrow> string \<Rightarrow> (string \<times> string) list option" where
  "add_pair trace pair =
     (case cut_pair pair of
        None \<Rightarrow> trace
      | Some (k, v) \<Rightarrow>
          (case trace of
             None \<Rightarrow> Some [(k, v)]
           | Some m \<Rightarrow> if map_of m k \<noteq> None then Some m else Some (m @ [(k, v)])))"

definition trace_from_header ::
  "string \<Rightarrow> (string \<times> string) list option \<Rightarrow> (string \<times> string) list option" where
  "trace_from_header header trace =
     (if header = [] then trace else foldl add_pair trace (Split header CHR '',''))"

definition missing_keys :: "ACL list \<Rightarrow> Caller \<Rightarrow> string list" where
  "missing_keys acls caller =
     concat (map (\<lambda>acl. if acl_Role acl \<in> set (caller_Roles caller)
                          then filter (\<lambda>k. trace_lookup (caller_Trace caller) k = None)
                                 (acl_TraceKeysRequired acl)
                          else []) acls)"

definition Authenticate ::
  "ACL list \<Rightarrow> (Request \<Rightarrow> Caller \<times> auth_error option) \<Rightarrow> Request \<Rightarrow>
     Caller \<times> auth_error option" where
  "Authenticate acls plugin req =
     (case plugin req of
        (caller, Some err) \<Rightarrow> (caller, Some err)
      | (caller, None) \<Rightarrow>
          (let caller' = caller\<lparr>caller_Trace :=
                 trace_from_header (req_Header req TRACE_HEADER) (caller_Trace caller)\<rparr>
           in case missing_keys acls caller' of
                [] \<Rightarrow> (caller', None)
              | k # ks \<Rightarrow> (caller', Some (MissingTraceKey k))))"

text \<open>The well-formed pairs of a header value, in order.\<close>

definition header_pairs :: "string \<Rightarrow> (string \<times> string) list" where
  "header_pairs header = List.map_filter cut_pair (Split header CHR '','')"

text \<open>The plugins and requests of \<open>TestTraceHeader\<close>.\<close>

definition allow_all :: "Request \<Rightarrow> Caller \<times> auth_error option" where
  "allow_all req =
     (\<lparr>caller_Name = [], caller_Roles = [], caller_MetricGroups = [''etre''],
       caller_Trace = None\<rparr>, None)"

definition plugin_foo :: "Request \<Rightarrow> Caller \<times> auth_error option" where
  "plugin_foo req =
     (\<lparr>caller_Name = ''foo'', caller_Roles = [], caller_MetricGroups = [],
       caller_Trace = Some [(''app'', ''do-not-change'')]\<rparr>, None)"

definition request_with :: "string \<Rightarrow> Request" where
  "request_with v = \<lparr>req_Header = (\<lambda>h. if h = TRACE_HEADER then v else [])\<rparr>"


section \<open>Index names\<close>

lemma Join_underscore: "xs \<noteq> [] \<Longrightarrow> Join xs ''_'' = underscore_joined xs"
  unfolding underscore_joined_def
  by (induction xs "''_''" rule: Join.induct) auto

text \<open>
  Claim C7. For an index definition with at least one key, \<open>indexName\<close> returns the
  prefix of the kind (\<open>IL\<close> if unique, else \<open>SPARSE\<close> if sparse, else \<open>SL\<close>), an
  underscore and the keys joined by underscores and, exactly when the direction list
  is not empty, a further underscore and the decimal directions joined by underscores:
  the name the specification describes. Two definitions with the same keys, kind and
  directions get the same name.
\<close>

theorem indexName_format:
  assumes "Keys index \<noteq> []"
  shows "indexName index = spec_indexName index \<and>
         (\<forall>index'. Keys index' = Keys index \<and> Unique index' = Unique index \<and>
                   Sparse index' = Sparse index \<and> Direction index' = Direction index
                   \<longrightarrow> indexName index' = indexName index)"
proof
  show "indexName index = spec_indexName index"
    using assms
    by (auto simp: indexName_def spec_indexName_def spec_kind_prefix_def indexNamePrefix_def
        intSliceToString_def Join_underscore)
next
  show "\<forall>index'. Keys index' = Keys index \<and> Unique index' = Unique index \<and>
                   Sparse index' = Sparse index \<and> Direction index' = Direction index
                   \<longrightarrow> indexName index' = indexName index"
    by (simp add: indexName_def indexNamePrefix_def)
qed

lemma Itoa_1: "Itoa 1 = ''1''" and Itoa_m1: "Itoa (- 1) = ''-1''"
  by (simp_all add: Itoa_def FormatUint.simps digit_char_def)

text \<open>
  The compound index with directions of \<open>TestIndexName\<close>: its name is
  \<open>SL_app_region_env_1_-1_1\<close>.
\<close>

theorem indexName_format_witness:
  "Keys idx_compound \<noteq> [] \<and> indexName idx_compound = spec_indexName idx_compound \<and>
   spec_indexName idx_compound = ''SL_app_region_env_1_-1_1''"
  using indexName_format [of idx_compound]
  by (simp add: idx_compound_def spec_indexName_def spec_kind_prefix_def
      underscore_joined_def Itoa_1 Itoa_m1)

section \<open>The configuration checks of createIndex\<close>

lemma indexConfigError_None_iff: "indexConfigError index = None \<longleftrightarrow> \<not> invalidIndex index"
  by (auto simp: indexConfigError_def invalidIndex_def noKeys_def tooManyKeys_def
      directionsMismatch_def badDirection_def uniqueAndSparse_def)

lemma zipDirections_Some: "length ks \<le> length ds \<Longrightarrow> \<exists>r. zipDirections ks ds = Some r"
  by (induction ks ds rule: zipDirections.induct) auto

lemma toBSONIndex_valid: "\<not> invalidIndex index \<Longrightarrow> \<exists>r. toBSONIndex index = Some r"
  by (auto simp: toBSONIndex_def invalidIndex_def directionsMismatch_def
      intro!: zipDirections_Some)

lemma createIndex_invalid:
  "indexConfigError index = Some e \<Longrightarrow> createIndex B w coll index = (Inl (Wrapf e ''index: %s''), w)"
  by (simp add: createIndex_def)

lemma createIndex_valid:
  assumes "\<not> invalidIndex index"
  shows "\<exists>keys. toBSONIndex index = Some keys \<and>
    createIndex B w coll index =
     (case call_CreateOne B w coll \<lparr>im_Keys = keys, im_Unique = Unique index,
            im_Sparse = Sparse index, im_Name = indexName index\<rparr> of
        (Some m, w') \<Rightarrow> (Inl (Wrapf (DriverError m) ''failed to create index %s with name %s''), w')
      | (None, w') \<Rightarrow> (Inr (indexName index), w'))"
proof -
  from assms obtain keys where k: "toBSONIndex index = Some keys"
    using toBSONIndex_valid by blast
  moreover have "indexConfigError index = None"
    using assms by (simp add: indexConfigError_None_iff)
  ultimately show ?thesis
    by (simp add: createIndex_def Let_def)
qed

lemma call_CreateOne_calls:
  "calls (snd (call_CreateOne B w coll m)) = calls w @ [Op_CreateOne coll m]"
  by (simp add: call_CreateOne_def split: prod.splits)

lemma createIndex_valid_calls:
  assumes "\<not> invalidIndex index"
  shows "\<exists>m. calls (snd (createIndex B w coll index)) = calls w @ [Op_CreateOne coll m]"
proof -
  from createIndex_valid [OF assms, of B w coll] obtain keys where
    e: "createIndex B w coll index =
     (case call_CreateOne B w coll \<lparr>im_Keys = keys, im_Unique = Unique index,
            im_Sparse = Sparse index, im_Name = indexName index\<rparr> of
        (Some m, w') \<Rightarrow> (Inl (Wrapf (DriverError m) ''failed to create index %s with name %s''), w')
      | (None, w') \<Rightarrow> (Inr (indexName index), w'))" by blast
  show ?thesis
    using call_CreateOne_calls [of B w coll "\<lparr>im_Keys = keys, im_Unique = Unique index,
            im_Sparse = Sparse index, im_Name = indexName index\<rparr>"]
    unfolding e by (auto split: prod.splits option.splits)
qed


lemma firstConfigError_eq:
  "invalidIndex index \<Longrightarrow> indexConfigError index = Some (firstConfigError index)"
  by (auto simp: indexConfigError_def invalidIndex_def noKeys_def tooManyKeys_def
      directionsMismatch_def badDirection_def uniqueAndSparse_def firstConfigError_def)


lemma scripted_CreateOne:
  "call_CreateOne (scripted ce l de cm) w coll m = (ce (im_Name m), \<lparr>db = db w, calls = calls w @ [Op_CreateOne coll m]\<rparr>)"
  by (simp add: call_CreateOne_def scripted_def)




section \<open>BSONSchemaValidator\<close>

lemma bsonTypeOf_None_iff: "bsonTypeOf t = None \<longleftrightarrow> t \<notin> set supportedTypes"
  by (simp add: bsonTypeOf_def supportedTypes_def)

lemma field_step_Inl_iff: "isl (field_step g f acc) \<longleftrightarrow> badField f"
proof (cases "bsonTypeOf (field_Type f)")
  case None
  then have "field_Type f \<notin> set supportedTypes"
    by (simp add: bsonTypeOf_None_iff)
  with None show ?thesis
    by (simp add: field_step_def badField_def)
next
  case (Some bt)
  then have "field_Type f \<in> set supportedTypes"
    using bsonTypeOf_None_iff [of "field_Type f"] by auto
  with Some show ?thesis
    by (simp add: field_step_def badField_def Let_def)
qed

lemma field_step_cause:
  "field_step g f acc = Inl err \<Longrightarrow>
     Cause err = errFieldNameEmpty \<or> Cause err = errInvalidFieldType \<or>
     Cause err = errEnumNotString"
  by (auto simp: field_step_def Let_def split: option.splits if_splits)

lemma fields_loop_Inl_iff: "isl (fields_loop g fs acc) \<longleftrightarrow> list_ex badField fs"
proof (induction fs arbitrary: acc)
  case Nil
  show ?case by simp
next
  case (Cons f fs)
  show ?case
  proof (cases "field_step g f acc")
    case (Inl e)
    then have "badField f" using field_step_Inl_iff [of g f acc] by simp
    with Inl show ?thesis by simp
  next
    case (Inr acc')
    then have "\<not> badField f" using field_step_Inl_iff [of g f acc] by simp
    with Inr Cons.IH [of acc'] show ?thesis by simp
  qed
qed

lemma fields_loop_cause:
  "fields_loop g fs acc = Inl err \<Longrightarrow>
     Cause err = errFieldNameEmpty \<or> Cause err = errInvalidFieldType \<or>
     Cause err = errEnumNotString"
proof (induction fs arbitrary: acc)
  case Nil
  then show ?case by simp
next
  case (Cons f fs)
  then show ?case
    by (cases "field_step g f acc") (auto dest: field_step_cause)
qed

lemma BSONSchemaValidator_isl:
  "isl (BSONSchemaValidator schema g) =
   isl (fields_loop g (Fields schema) \<lparr>requiredFields = [], dependents = [], properties = []\<rparr>)"
  by (simp add: BSONSchemaValidator_def split: sum.splits)

text \<open>
  Claim C10. \<open>BSONSchemaValidator\<close> returns an error, and no validator, exactly when
  some field of the schema has an empty name, a type other than string, int, bool,
  object, datetime, int-str and bool-str, or an enum that is not \<open>nil\<close> on a type other
  than string; otherwise it returns a validator and no error. The cause of the error is
  one of \<open>errFieldNameEmpty\<close>, \<open>errInvalidFieldType\<close> and \<open>errEnumNotString\<close>.
\<close>

theorem BSONSchemaValidator_errors:
  "((\<exists>err. BSONSchemaValidator schema globalCase = Inl err) \<longleftrightarrow>
      list_ex badField (Fields schema)) \<and>
   ((\<exists>validator. BSONSchemaValidator schema globalCase = Inr validator) \<longleftrightarrow>
      \<not> list_ex badField (Fields schema)) \<and>
   (\<forall>err. BSONSchemaValidator schema globalCase = Inl err \<longrightarrow>
      Cause err = errFieldNameEmpty \<or> Cause err = errInvalidFieldType \<or>
      Cause err = errEnumNotString)"
proof -
  have a: "isl (BSONSchemaValidator schema globalCase) \<longleftrightarrow> list_ex badField (Fields schema)"
    by (simp add: BSONSchemaValidator_isl fields_loop_Inl_iff)
  have b: "Cause err = errFieldNameEmpty \<or> Cause err = errInvalidFieldType \<or>
      Cause err = errEnumNotString" if "BSONSchemaValidator schema globalCase = Inl err" for err
    using that fields_loop_cause [of globalCase "Fields schema" _ err]
    by (auto simp: BSONSchemaValidator_def split: sum.splits)
  from a b show ?thesis
    by (cases "BSONSchemaValidator schema globalCase") auto
qed


text \<open>
  The schema with an enum on an \<open>int\<close> field is refused with \<open>errEnumNotString\<close>; the
  schema with a required string and an int gets its validator.
\<close>

theorem BSONSchemaValidator_errors_witness:
  "list_ex badField (Fields schema_enum_int) \<and>
   BSONSchemaValidator schema_enum_int Case0 =
     Inl (Wrapf errEnumNotString ''field %s is of type %q'') \<and>
   \<not> list_ex badField (Fields schema_mixed) \<and>
   BSONSchemaValidator schema_mixed Case0 =
     Inr \<lparr>js_bsonType = ''object'',
          js_properties = [(''name'', [(''bsonType'', BString ''string'')]),
                           (''age'', [(''bsonType'', BString ''long'')])],
          js_required = [''name''], js_additionalProperties = False,
          js_dependencies = None\<rparr>"
proof -
  have a: "list_ex badField (Fields schema_enum_int)"
    by (simp add: schema_enum_int_def Schema0_def field_status_def Field0_def badField_def)
  have b: "BSONSchemaValidator schema_enum_int Case0 =
     Inl (Wrapf errEnumNotString ''field %s is of type %q'')"
    by (simp add: BSONSchemaValidator_def schema_enum_int_def Schema0_def field_status_def
        Field0_def field_step_def bsonTypeOf_def)
  have c: "\<not> list_ex badField (Fields schema_mixed)"
    by (simp add: schema_mixed_def Schema0_def field_name_def field_age_def Field0_def
        badField_def supportedTypes_def)
  have d: "BSONSchemaValidator schema_mixed Case0 =
     Inr \<lparr>js_bsonType = ''object'',
          js_properties = [(''name'', [(''bsonType'', BString ''string'')]),
                           (''age'', [(''bsonType'', BString ''long'')])],
          js_required = [''name''], js_additionalProperties = False,
          js_dependencies = None\<rparr>"
    by (simp add: BSONSchemaValidator_def schema_mixed_def Schema0_def field_name_def
        field_age_def Field0_def field_step_def bsonTypeOf_def applyConstraint_def Case0_def
        Let_def)
  show ?thesis
    using BSONSchemaValidator_errors [of schema_enum_int Case0]
      BSONSchemaValidator_errors [of schema_mixed Case0] a b c d
    by simp
qed

section \<open>The constraint of a field\<close>

lemma applyConstraint_spec:
  assumes "bsonTypeOf (field_Type f) = Some bt"
  shows "applyConstraint g f bt [(''bsonType'', BString bt)] =
         (''bsonType'', BString bt) #
           (case spec_constraint g f of None \<Rightarrow> [] | Some kv \<Rightarrow> [kv])"
  using assms
  by (auto simp: applyConstraint_def spec_constraint_def hasEnum_def typeConstraint_def
      caseConstraint_def effectiveCase_def Let_def split: option.splits)

lemma field_step_properties:
  assumes "field_step g f acc = Inr acc'"
  shows "\<exists>bt. bsonTypeOf (field_Type f) = Some bt \<and>
           properties acc' =
             AList.update (field_Name f)
               (applyConstraint g f bt [(''bsonType'', BString bt)]) (properties acc)"
  using assms
  by (auto simp: field_step_def Let_def split: option.splits if_splits)

lemma fields_loop_other:
  "fields_loop g fs acc = Inr acc' \<Longrightarrow> n \<notin> field_Name ` set fs \<Longrightarrow>
     map_of (properties acc') n = map_of (properties acc) n"
proof (induction fs arbitrary: acc)
  case Nil
  then show ?case by simp
next
  case (Cons f fs)
  from Cons.prems(1) obtain acc1 where s: "field_step g f acc = Inr acc1"
    and l: "fields_loop g fs acc1 = Inr acc'"
    by (cases "field_step g f acc") auto
  from field_step_properties [OF s] Cons.prems(2)
  have "map_of (properties acc1) n = map_of (properties acc) n"
    by (auto simp: update_conv')
  with Cons.IH [OF l] Cons.prems(2) show ?case by simp
qed

lemma fields_loop_entry:
  "fields_loop g (pre @ f # post) acc = Inr acc' \<Longrightarrow>
   field_Name f \<notin> field_Name ` set post \<Longrightarrow>
   \<exists>bt. bsonTypeOf (field_Type f) = Some bt \<and>
     map_of (properties acc') (field_Name f) =
       Some (applyConstraint g f bt [(''bsonType'', BString bt)])"
proof (induction pre arbitrary: acc)
  case Nil
  from Nil.prems(1) obtain acc1 where s: "field_step g f acc = Inr acc1"
    and l: "fields_loop g post acc1 = Inr acc'"
    by (cases "field_step g f acc") auto
  from field_step_properties [OF s] obtain bt where
    bt: "bsonTypeOf (field_Type f) = Some bt" and
    p: "properties acc1 = AList.update (field_Name f)
               (applyConstraint g f bt [(''bsonType'', BString bt)]) (properties acc)"
    by blast
  from fields_loop_other [OF l Nil.prems(2)] p bt show ?case
    by (auto simp: update_conv')
next
  case (Cons p pre)
  from Cons.prems(1) obtain acc1 where s: "field_step g p acc = Inr acc1"
    and l: "fields_loop g (pre @ f # post) acc1 = Inr acc'"
    by (cases "field_step g p acc") auto
  from Cons.IH [OF l Cons.prems(2)] show ?case .
qed

text \<open>
  Claim C5. In the validator of a schema, the entry of a field (the last field of its
  name, since a later field of the same name replaces the entry) holds its BSON type and
  at most one value constraint, chosen by priority: an explicit pattern, else a
  non-empty enum, else the constraint of the type (datetime, int-str, bool-str), else
  the pattern of strict lower case, which applies only when the BSON type is string and
  the effective case configuration (the field's own if present, else the global one) is
  strict with type \<open>lower\<close>. A field that is not a string gets no constraint from a
  case rule, and no error.
\<close>

theorem BSONSchemaValidator_constraint_priority:
  assumes "BSONSchemaValidator schema globalCase = Inr validator"
      and "Fields schema = pre @ f # post"
      and "field_Name f \<notin> field_Name ` set post"
  shows "\<exists>bt. bsonTypeOf (field_Type f) = Some bt \<and>
     map_of (js_properties validator) (field_Name f) =
       Some ((''bsonType'', BString bt) #
             (case spec_constraint globalCase f of None \<Rightarrow> [] | Some kv \<Rightarrow> [kv]))"
proof -
  from assms(1) obtain acc where
    l: "fields_loop globalCase (Fields schema)
          \<lparr>requiredFields = [], dependents = [], properties = []\<rparr> = Inr acc"
    and v: "js_properties validator = properties acc"
    by (auto simp: BSONSchemaValidator_def split: sum.splits)
  from fields_loop_entry [OF l [unfolded assms(2)] assms(3)] obtain bt where
    "bsonTypeOf (field_Type f) = Some bt"
    "map_of (properties acc) (field_Name f) =
       Some (applyConstraint globalCase f bt [(''bsonType'', BString bt)])"
    by blast
  then show ?thesis
    using v by (auto simp: applyConstraint_spec)
qed

lemma schema_case_validator:
  "BSONSchemaValidator schema_case case_upper =
     Inr \<lparr>js_bsonType = ''object'',
          js_properties =
            [(''userName'', [(''bsonType'', BString ''string''),
                             (''pattern'', BString regexLowerCase)]),
             (''global'', [(''bsonType'', BString ''bool'')])],
          js_required = [], js_additionalProperties = False,
          js_dependencies = None\<rparr>"
  by (simp add: BSONSchemaValidator_def schema_case_def Schema0_def field_userName_def
        field_global_def Field0_def field_step_def bsonTypeOf_def applyConstraint_def
        case_lower_def case_upper_def Let_def)

text \<open>
  Two cases of \<open>TestBsonSchemaValidator\<close>, under a global configuration of strict upper
  case: the string field with its own strict lower case gets the lower-case pattern;
  the bool field with the same case rule gets its BSON type only.
\<close>

theorem BSONSchemaValidator_constraint_priority_witness:
  "Fields schema_case = [] @ field_userName # [field_global] \<and>
   field_Name field_userName \<notin> field_Name ` set [field_global] \<and>
   spec_constraint case_upper field_userName = Some (''pattern'', BString regexLowerCase) \<and>
   map_of (js_properties (projr (BSONSchemaValidator schema_case case_upper))) ''userName'' =
     Some [(''bsonType'', BString ''string''), (''pattern'', BString regexLowerCase)] \<and>
   Fields schema_case = [field_userName] @ field_global # [] \<and>
   spec_constraint case_upper field_global = None \<and>
   map_of (js_properties (projr (BSONSchemaValidator schema_case case_upper))) ''global'' =
     Some [(''bsonType'', BString ''bool'')]"
proof -
  have a: "Fields schema_case = [] @ field_userName # [field_global]"
    and a': "Fields schema_case = [field_userName] @ field_global # []"
    by (simp_all add: schema_case_def Schema0_def)
  have b: "field_Name field_userName \<notin> field_Name ` set [field_global]"
    and b': "field_Name field_global \<notin> field_Name ` set []"
    by (simp_all add: field_userName_def field_global_def Field0_def)
  have c: "spec_constraint case_upper field_userName = Some (''pattern'', BString regexLowerCase)"
    by (simp add: spec_constraint_def hasEnum_def typeConstraint_def caseConstraint_def
        effectiveCase_def field_userName_def Field0_def case_lower_def bsonTypeOf_def)
  have d: "spec_constraint case_upper field_global = None"
    by (simp add: spec_constraint_def hasEnum_def typeConstraint_def caseConstraint_def
        effectiveCase_def field_global_def Field0_def case_lower_def bsonTypeOf_def)
  have n: "field_Name field_userName = ''userName''" "field_Name field_global = ''global''"
    by (simp_all add: field_userName_def field_global_def Field0_def)
  show ?thesis
    using BSONSchemaValidator_constraint_priority [OF schema_case_validator a b]
      BSONSchemaValidator_constraint_priority [OF schema_case_validator a' b'] a a' b c d n
    by (auto simp: schema_case_validator)
qed



section \<open>Reconciling the indexes of a collection\<close>


lemma create_loop_break:
  assumes "createIndex B w e index = (Inl err, w')"
      and "Contains (Error (Cause err)) buildInProgress"
  shows "create_loop B w e (index # post) c = (Inr c, w')"
  using assms by simp

lemma call_ListIndexes_calls:
  "calls (snd (call_ListIndexes B w coll)) = calls w @ [Op_ListIndexes coll]"
  by (simp add: call_ListIndexes_def split: prod.splits)

lemma call_DropOne_calls:
  "calls (snd (call_DropOne B w coll idx)) = calls w @ [Op_DropOne coll idx]"
  by (simp add: call_DropOne_def split: prod.splits)

lemma call_RunCommand_calls:
  "calls (snd (call_RunCommand B w c)) = calls w @ [Op_RunCommand c]"
  by (simp add: call_RunCommand_def split: prod.splits)

lemma existingIndexes_calls:
  "calls (snd (existingIndexes B w coll)) = calls w @ [Op_ListIndexes coll]"
  using call_ListIndexes_calls [of B w coll]
  by (auto simp: existingIndexes_def split: prod.splits sum.splits option.splits)





lemma scripted_ListIndexes:
  "call_ListIndexes (scripted ce l de cm) w coll =
     (Inr (l, None), \<lparr>db = db w, calls = calls w @ [Op_ListIndexes coll]\<rparr>)"
  by (simp add: call_ListIndexes_def scripted_def)


lemma scripted_RunCommand:
  "call_RunCommand (scripted ce l de cm) w c =
     (cm, \<lparr>db = db w, calls = calls w @ [Op_RunCommand c]\<rparr>)"
  by (simp add: call_RunCommand_def scripted_def)








section \<open>The calls of a reconciliation\<close>

lemma steps_on_refl: "steps_on e P w w"
  by (simp add: steps_on_def extends_def new_calls_def)

lemma steps_on_append:
  "calls w' = calls w @ new \<Longrightarrow> steps_on e P w w' = list_all (\<lambda>c. coll_of c = e \<and> P c) new"
  by (simp add: steps_on_def extends_def new_calls_def)

lemma steps_on_trans:
  assumes "steps_on e P w w1" and "steps_on e P w1 w2"
  shows "steps_on e P w w2"
proof -
  from assms(1) have "\<exists>n1. calls w1 = calls w @ n1 \<and> list_all (\<lambda>c. coll_of c = e \<and> P c) n1"
    unfolding steps_on_def extends_def new_calls_def
    by (metis append_take_drop_id)
  then obtain n1 where n1: "calls w1 = calls w @ n1" "list_all (\<lambda>c. coll_of c = e \<and> P c) n1"
    by blast
  from assms(2) have "\<exists>n2. calls w2 = calls w1 @ n2 \<and> list_all (\<lambda>c. coll_of c = e \<and> P c) n2"
    unfolding steps_on_def extends_def new_calls_def
    by (metis append_take_drop_id)
  then obtain n2 where n2: "calls w2 = calls w1 @ n2" "list_all (\<lambda>c. coll_of c = e \<and> P c) n2"
    by blast
  from n1 n2 have "calls w2 = calls w @ (n1 @ n2)" by simp
  from steps_on_append [OF this] n1 n2 show ?thesis by simp
qed

lemma steps_on_weaken:
  assumes "steps_on e P w w'" and "\<And>c. P c \<Longrightarrow> Q c"
  shows "steps_on e Q w w'"
  using assms by (auto simp: steps_on_def list_all_iff)

lemma createIndex_steps:
  "createIndex B w coll index = (r, w') \<Longrightarrow> steps_on coll is_index_call w w'"
  by (cases "call_CreateOne B w coll \<lparr>im_Keys = the (toBSONIndex index),
        im_Unique = Unique index, im_Sparse = Sparse index, im_Name = indexName index\<rparr>")
     (auto simp: createIndex_def Let_def steps_on_refl call_CreateOne_def steps_on_append
      split: option.splits prod.splits)

lemma create_loop_steps:
  "create_loop B w coll xs c = (r, w') \<Longrightarrow> steps_on coll is_index_call w w'"
proof (induction xs arbitrary: w c)
  case Nil
  then show ?case by (simp add: steps_on_refl)
next
  case (Cons x xs)
  obtain r1 w1 where ci: "createIndex B w coll x = (r1, w1)"
    by (cases "createIndex B w coll x")
  note s1 = createIndex_steps [OF ci]
  show ?case
  proof (cases r1)
    case (Inl err)
    with Cons.prems ci have "w' = w1" by (auto split: if_splits)
    with s1 show ?thesis by simp
  next
    case (Inr name)
    with Cons.prems ci have "create_loop B w1 coll xs (c @ [name]) = (r, w')" by simp
    from steps_on_trans [OF s1 Cons.IH [OF this]] show ?thesis .
  qed
qed

lemma existingIndexes_steps:
  "existingIndexes B w coll = (r, w') \<Longrightarrow> steps_on coll is_index_call w w'"
  using existingIndexes_calls [of B w coll]
  by (simp add: steps_on_append)

lemma drop_loop_steps:
  "drop_loop B w coll existing c = (r, w') \<Longrightarrow> steps_on coll is_index_call w w'"
proof (induction existing arbitrary: w)
  case Nil
  then show ?case by (simp add: steps_on_refl)
next
  case (Cons idx rest)
  show ?case
  proof (cases "idx \<notin> set c \<and> \<not> HasPrefix idx ''_''")
    case False
    with Cons.prems have "drop_loop B w coll rest c = (r, w')" by auto
    from Cons.IH [OF this] show ?thesis .
  next
    case True
    obtain r1 w1 where d: "call_DropOne B w coll idx = (r1, w1)"
      by (cases "call_DropOne B w coll idx")
    with call_DropOne_calls [of B w coll idx]
    have s1: "steps_on coll is_index_call w w1" by (simp add: steps_on_append)
    from True d Cons.prems
    have "w' = w1 \<or> drop_loop B w1 coll rest c = (r, w')"
      by (cases r1) (auto split: if_splits)
    then show ?thesis
      using s1 Cons.IH [of w1] steps_on_trans [OF s1] by blast
  qed
qed

lemma drop_obsolete_steps:
  assumes "drop_obsolete B w coll c = (r, w')"
  shows "steps_on coll is_index_call w w'"
proof -
  obtain r1 w1 where e: "existingIndexes B w coll = (r1, w1)"
    by (cases "existingIndexes B w coll")
  note s1 = existingIndexes_steps [OF e]
  show ?thesis
  proof (cases r1)
    case (Inl err)
    with assms e have "w' = w1" by (simp add: drop_obsolete_def)
    with s1 show ?thesis by simp
  next
    case (Inr existing)
    with assms e have "drop_loop B w1 coll existing c = (r, w')"
      by (simp add: drop_obsolete_def)
    from steps_on_trans [OF s1 drop_loop_steps [OF this]] show ?thesis .
  qed
qed

lemma updateMongoIndexes_steps:
  assumes "updateMongoIndexes B w entity indexes = (r, w')"
  shows "steps_on entity is_index_call w w'"
proof (cases "length indexes = 0")
  case True
  with assms show ?thesis by (simp add: updateMongoIndexes_def steps_on_refl)
next
  case False
  obtain r1 w1 where c: "create_loop B w entity indexes [] = (r1, w1)"
    by (cases "create_loop B w entity indexes []")
  note s1 = create_loop_steps [OF c]
  show ?thesis
  proof (cases r1)
    case (Inl err)
    with assms c False have "w' = w1" by (simp add: updateMongoIndexes_def)
    with s1 show ?thesis by simp
  next
    case (Inr created)
    with assms c False have "drop_obsolete B w1 entity created = (r, w')"
      by (simp add: updateMongoIndexes_def)
    from steps_on_trans [OF s1 drop_obsolete_steps [OF this]] show ?thesis .
  qed
qed

lemma disable_steps:
  "disableMongoJSONValidation B w entity = (r, w') \<Longrightarrow>
     steps_on entity (\<lambda>c. c = disableCommand entity) w w'"
  using call_RunCommand_calls [of B w
      "\<lparr>cm_collMod = entity, cm_validator = None, cm_validationLevel = ''off''\<rparr>"]
  by (auto simp: disableMongoJSONValidation_def disableCommand_def steps_on_append
      split: prod.splits option.splits)

lemma updateMongoJSONValidation_steps:
  assumes "updateMongoJSONValidation B w entity schema global = (r, w')"
  shows "steps_on entity (\<lambda>c. True) w w'"
proof (cases "length (Fields schema) = 0")
  case True
  with assms have "disableMongoJSONValidation B w entity = (r, w')"
    by (simp add: updateMongoJSONValidation_def)
  from steps_on_weaken [OF disable_steps [OF this]] show ?thesis by simp
next
  case False
  show ?thesis
  proof (cases "BSONSchemaValidator schema (SchemaValidationConfig_Case global)")
    case (Inl err)
    with assms False show ?thesis
      by (simp add: updateMongoJSONValidation_def steps_on_refl)
  next
    case (Inr validator)
    let ?lvl = "ValidationLevel schema"
    show ?thesis
    proof (cases "?lvl \<noteq> [] \<and> ?lvl \<noteq> ''moderate'' \<and> ?lvl \<noteq> ''strict''")
      case True
      with assms False Inr have "w' = w"
        by (auto simp: updateMongoJSONValidation_def Let_def)
      then show ?thesis by (simp add: steps_on_refl)
    next
      case bad: False
      let ?cmd = "\<lparr>cm_collMod = entity, cm_validator = Some validator,
                   cm_validationLevel =
                     (if ?lvl = [] then defaultJSONSchemaValidationLevel else ?lvl)\<rparr>"
      from assms False Inr bad have "w' = snd (call_RunCommand B w ?cmd)"
        by (auto simp: updateMongoJSONValidation_def Let_def split: prod.splits option.splits)
      with call_RunCommand_calls [of B w ?cmd] show ?thesis
        by (simp add: steps_on_append)
    qed
  qed
qed


lemma steps_onD:
  assumes "steps_on e P w w'"
  shows "\<exists>new. calls w' = calls w @ new \<and> (\<forall>c\<in>set new. coll_of c = e \<and> P c)"
proof -
  from assms have "calls w' = calls w @ new_calls w w'"
    unfolding steps_on_def extends_def new_calls_def
    by (metis append_take_drop_id)
  moreover from assms have "\<forall>c\<in>set (new_calls w w'). coll_of c = e \<and> P c"
    by (simp add: steps_on_def list_all_iff)
  ultimately show ?thesis by blast
qed

lemma entity_step:
  assumes "entities_loop B w g ((entity, validations) # es) = (r, w')"
  shows "\<exists>w1. steps_on entity
                (\<lambda>c. entity_Schema validations = None \<longrightarrow> c = disableCommand entity) w w1 \<and>
              (w' = w1 \<or> entities_loop B w1 g es = (r, w'))"
proof (cases "entity_Schema validations")
  case None
  obtain r1 w1 where d: "disableMongoJSONValidation B w entity = (r1, w1)"
    by (cases "disableMongoJSONValidation B w entity")
  from steps_on_weaken [OF disable_steps [OF d]]
  have s: "steps_on entity
             (\<lambda>c. entity_Schema validations = None \<longrightarrow> c = disableCommand entity) w w1"
    by simp
  from assms None d have "w' = w1 \<or> entities_loop B w1 g es = (r, w')"
    by (cases r1) auto
  with s show ?thesis by blast
next
  case (Some schema)
  let ?P = "\<lambda>c. entity_Schema validations = None \<longrightarrow> c = disableCommand entity"
  obtain r1 w1 where u: "updateMongoIndexes B w entity (Indexes schema) = (r1, w1)"
    by (cases "updateMongoIndexes B w entity (Indexes schema)")
  from steps_on_weaken [OF updateMongoIndexes_steps [OF u]] Some
  have s1: "steps_on entity ?P w w1" by simp
  show ?thesis
  proof (cases r1)
    case (Some err)
    with assms \<open>entity_Schema validations = Some schema\<close> u have "w' = w1" by simp
    with s1 show ?thesis by blast
  next
    case None
    obtain r2 w2 where j: "updateMongoJSONValidation B w1 entity schema g = (r2, w2)"
      by (cases "updateMongoJSONValidation B w1 entity schema g")
    from steps_on_weaken [OF updateMongoJSONValidation_steps [OF j]]
      \<open>entity_Schema validations = Some schema\<close>
    have s2: "steps_on entity ?P w1 w2" by simp
    from assms \<open>entity_Schema validations = Some schema\<close> u None j
    have "w' = w2 \<or> entities_loop B w2 g es = (r, w')"
      by (cases r2) auto
    with steps_on_trans [OF s1 s2] show ?thesis by blast
  qed
qed

lemma entities_loop_calls:
  "entities_loop B w g es = (r, w') \<Longrightarrow>
   \<exists>new. calls w' = calls w @ new \<and>
     (\<forall>c\<in>set new. \<exists>ev\<in>set es. coll_of c = fst ev \<and>
                      (entity_Schema (snd ev) = None \<longrightarrow> c = disableCommand (fst ev)))"
proof (induction es arbitrary: w)
  case Nil
  then show ?case by simp
next
  case (Cons ev es)
  obtain entity validations where ev: "ev = (entity, validations)" by (cases ev)
  from entity_step [OF Cons.prems [unfolded ev]] obtain w1 where
    s: "steps_on entity
          (\<lambda>c. entity_Schema validations = None \<longrightarrow> c = disableCommand entity) w w1"
    and k: "w' = w1 \<or> entities_loop B w1 g es = (r, w')" by blast
  from steps_onD [OF s] obtain n1 where
    n1: "calls w1 = calls w @ n1"
        "\<forall>c\<in>set n1. coll_of c = entity \<and>
            (entity_Schema validations = None \<longrightarrow> c = disableCommand entity)" by blast
  from k show ?case
  proof
    assume "w' = w1"
    with n1 ev show ?thesis by auto
  next
    assume "entities_loop B w1 g es = (r, w')"
    from Cons.IH [OF this] obtain n2 where
      n2: "calls w' = calls w1 @ n2"
          "\<forall>c\<in>set n2. \<exists>ev\<in>set es. coll_of c = fst ev \<and>
                      (entity_Schema (snd ev) = None \<longrightarrow> c = disableCommand (fst ev))"
      by blast
    from n1(1) n2(1) have "calls w' = calls w @ (n1 @ n2)" by simp
    moreover from n1(2) n2(2) ev
    have "\<forall>c\<in>set (n1 @ n2). \<exists>ev'\<in>set (ev # es). coll_of c = fst ev' \<and>
            (entity_Schema (snd ev') = None \<longrightarrow> c = disableCommand (fst ev'))"
      by auto
    ultimately show ?thesis by blast
  qed
qed


subsection \<open>Which run ends with the error of a schema without indexes\<close>

lemma createIndex_cause:
  assumes "createIndex B w coll index = (Inl err, w')"
  shows "Cause err \<noteq> ErrNoIndexesDefined e"
proof (cases "invalidIndex index")
  case True
  with assms have "err = Wrapf (firstConfigError index) ''index: %s''"
    by (simp add: createIndex_invalid firstConfigError_eq)
  then show ?thesis by (simp add: firstConfigError_def)
next
  case False
  from createIndex_valid [OF False, of B w coll] obtain keys where
    e: "createIndex B w coll index =
       (case call_CreateOne B w coll \<lparr>im_Keys = keys, im_Unique = Unique index,
              im_Sparse = Sparse index, im_Name = indexName index\<rparr> of
          (Some m, w') \<Rightarrow>
            (Inl (Wrapf (DriverError m) ''failed to create index %s with name %s''), w')
        | (None, w') \<Rightarrow> (Inr (indexName index), w'))" by blast
  obtain r1 w1 where c: "call_CreateOne B w coll \<lparr>im_Keys = keys, im_Unique = Unique index,
              im_Sparse = Sparse index, im_Name = indexName index\<rparr> = (r1, w1)"
    by (cases "call_CreateOne B w coll \<lparr>im_Keys = keys, im_Unique = Unique index,
              im_Sparse = Sparse index, im_Name = indexName index\<rparr>")
  from assms e c show ?thesis
    by (cases r1) auto
qed

lemma create_loop_cause:
  "create_loop B w coll xs c = (Inl err, w') \<Longrightarrow> Cause err \<noteq> ErrNoIndexesDefined e"
proof (induction xs arbitrary: w c)
  case Nil
  then show ?case by simp
next
  case (Cons x xs)
  obtain r1 w1 where ci: "createIndex B w coll x = (r1, w1)"
    by (cases "createIndex B w coll x")
  show ?case
  proof (cases r1)
    case (Inl err1)
    with Cons.prems ci have "err = err1" by (auto split: if_splits)
    with ci Inl createIndex_cause show ?thesis by blast
  next
    case (Inr name)
    with Cons.prems ci have "create_loop B w1 coll xs (c @ [name]) = (Inl err, w')" by simp
    from Cons.IH [OF this] show ?thesis .
  qed
qed

lemma decode_names_cause:
  "decode_names coll items ret = Inl err \<Longrightarrow> Cause err \<noteq> ErrNoIndexesDefined e"
  by (induction coll items ret rule: decode_names.induct) auto

lemma existingIndexes_cause:
  "existingIndexes B w coll = (Inl err, w') \<Longrightarrow> Cause err \<noteq> ErrNoIndexesDefined e"
  by (auto simp: existingIndexes_def split: prod.splits sum.splits option.splits
      dest: decode_names_cause)

lemma drop_loop_cause:
  "drop_loop B w coll existing c = (Some err, w') \<Longrightarrow> Cause err \<noteq> ErrNoIndexesDefined e"
proof (induction existing arbitrary: w)
  case Nil
  then show ?case by simp
next
  case (Cons idx rest)
  then show ?case
    by (auto split: if_splits prod.splits option.splits)
qed

lemma drop_obsolete_cause:
  "drop_obsolete B w coll c = (Some err, w') \<Longrightarrow> Cause err \<noteq> ErrNoIndexesDefined e"
  by (auto simp: drop_obsolete_def split: prod.splits sum.splits
      dest: existingIndexes_cause drop_loop_cause)

lemma updateMongoIndexes_cause:
  assumes "updateMongoIndexes B w entity indexes = (Some err, w')"
      and "Cause err = ErrNoIndexesDefined e"
  shows "e = entity \<and> indexes = []"
  using assms
  by (auto simp: updateMongoIndexes_def split: if_splits prod.splits sum.splits
      dest: create_loop_cause drop_obsolete_cause)

lemma BSONSchemaValidator_cause:
  "BSONSchemaValidator schema g = Inl err \<Longrightarrow> Cause err \<noteq> ErrNoIndexesDefined e"
  using fields_loop_cause [of g "Fields schema" _ err]
  by (auto simp: BSONSchemaValidator_def split: sum.splits)

lemma disable_cause:
  "disableMongoJSONValidation B w entity = (Some err, w') \<Longrightarrow>
     Cause err \<noteq> ErrNoIndexesDefined e"
  by (auto simp: disableMongoJSONValidation_def split: prod.splits option.splits)

lemma updateMongoJSONValidation_cause:
  "updateMongoJSONValidation B w entity schema g = (Some err, w') \<Longrightarrow>
     Cause err \<noteq> ErrNoIndexesDefined e"
  by (auto simp: updateMongoJSONValidation_def Let_def
      split: if_splits sum.splits prod.splits option.splits
      dest: disable_cause BSONSchemaValidator_cause)

lemma entities_loop_cause:
  "entities_loop B w g es = (Some err, w') \<Longrightarrow> Cause err = ErrNoIndexesDefined e \<Longrightarrow>
     \<exists>v\<in>snd ` set es. \<exists>schema. (e, v) \<in> set es \<and> entity_Schema v = Some schema"
proof (induction es arbitrary: w)
  case Nil
  then show ?case by simp
next
  case (Cons ev es)
  obtain entity validations where ev: "ev = (entity, validations)" by (cases ev)
  show ?case
  proof (cases "entity_Schema validations")
    case None
    obtain r1 w1 where d: "disableMongoJSONValidation B w entity = (r1, w1)"
      by (cases "disableMongoJSONValidation B w entity")
    show ?thesis
    proof (cases r1)
      case (Some err1)
      with Cons.prems ev None d have "err = err1" by simp
      with d Some disable_cause Cons.prems(2) show ?thesis by blast
    next
      case n: None
      with Cons.prems ev None d have "entities_loop B w1 g es = (Some err, w')" by simp
      from Cons.IH [OF this Cons.prems(2)] show ?thesis by auto
    qed
  next
    case (Some schema)
    obtain r1 w1 where u: "updateMongoIndexes B w entity (Indexes schema) = (r1, w1)"
      by (cases "updateMongoIndexes B w entity (Indexes schema)")
    show ?thesis
    proof (cases r1)
      case s: (Some err1)
      with Cons.prems ev Some u
      have "err = Wrapf err1 ''failed to ensure index creation for %s''" by simp
      with Cons.prems(2) have "Cause err1 = ErrNoIndexesDefined e" by simp
      from updateMongoIndexes_cause [OF u [unfolded s] this] have "e = entity" by simp
      with ev Some show ?thesis by force
    next
      case None
      obtain r2 w2 where j: "updateMongoJSONValidation B w1 entity schema g = (r2, w2)"
        by (cases "updateMongoJSONValidation B w1 entity schema g")
      show ?thesis
      proof (cases r2)
        case s: (Some err2)
        with Cons.prems ev Some u None j have "err = err2" by simp
        with j s updateMongoJSONValidation_cause Cons.prems(2) show ?thesis by blast
      next
        case n: None
        with Cons.prems ev Some u None j
        have "entities_loop B w2 g es = (Some err, w')" by simp
        from Cons.IH [OF this Cons.prems(2)] show ?thesis by auto
      qed
    qed
  qed
qed


lemma frame_step:
  assumes new: "\<forall>c\<in>set new. \<exists>ev\<in>set es. coll_of c = fst ev \<and>
                      (entity_Schema (snd ev) = None \<longrightarrow> c = disableCommand (fst ev))"
      and c: "c \<in> set new" "coll_of c = entity"
      and ent: "(entity, validations) \<in> set es" "entity_Schema validations = None"
               "distinct (map fst es)"
  shows "c = disableCommand entity \<and> \<not> is_index_call c"
proof -
  from new c(1) have "\<exists>ev\<in>set es. coll_of c = fst ev \<and>
                      (entity_Schema (snd ev) = None \<longrightarrow> c = disableCommand (fst ev))"
    by (rule bspec)
  then obtain ev where ev1: "ev \<in> set es"
    and ev23: "coll_of c = fst ev \<and>
        (entity_Schema (snd ev) = None \<longrightarrow> c = disableCommand (fst ev))"
    by (rule bexE)
  from ev1 ev23 have
    ev: "ev \<in> set es" "coll_of c = fst ev"
        "entity_Schema (snd ev) = None \<longrightarrow> c = disableCommand (fst ev)" by simp_all
  obtain e v where p: "ev = (e, v)" by (cases ev)
  from ev(2) c(2) p have e: "e = entity" by simp
  from ev(1) p e have "(entity, v) \<in> set es" by simp
  from eq_key_imp_eq_value [OF ent(3) this ent(1)] have "v = validations" .
  with ev(3) p e ent(2) have "c = disableCommand entity" by simp
  then show ?thesis by (simp add: disableCommand_def)
qed


text \<open>
  Claim C9. For an entity type whose configured schema is \<open>nil\<close>, every call that
  \<open>CreateOrUpdateMongoSchema\<close> makes on the collection of that type is the \<open>collMod\<close>
  command that empties the validator and sets the validation level \<open>off\<close>: no index is
  created, listed or dropped on that collection. The run never ends with the error of
  a schema without indexes for that type. (The entity types of a configuration are the
  keys of a Go map, so they are distinct.)
\<close>

theorem CreateOrUpdateMongoSchema_nil_schema:
  assumes "(entity, validations) \<in> set (Entities config)"
      and "entity_Schema validations = None"
      and "distinct (map fst (Entities config))"
  shows "extends w (snd (CreateOrUpdateMongoSchema B w config)) \<and>
         (\<forall>c\<in>set (new_calls w (snd (CreateOrUpdateMongoSchema B w config))).
            coll_of c = entity \<longrightarrow> c = disableCommand entity \<and> \<not> is_index_call c) \<and>
         (\<forall>err. fst (CreateOrUpdateMongoSchema B w config) = Some err \<longrightarrow>
            Cause err \<noteq> ErrNoIndexesDefined entity)"
proof -
  obtain r w' where run: "CreateOrUpdateMongoSchema B w config = (r, w')"
    by (cases "CreateOrUpdateMongoSchema B w config")
  then have loop: "entities_loop B w (config_Global config) (Entities config) = (r, w')"
    by (simp add: CreateOrUpdateMongoSchema_def)
  have uniq: "v = validations" if "(entity, v) \<in> set (Entities config)" for v
    by (rule eq_key_imp_eq_value [OF assms(3) that assms(1)])
  from entities_loop_calls [OF loop] obtain new where
    new: "calls w' = calls w @ new"
         "\<forall>c\<in>set new. \<exists>ev\<in>set (Entities config). coll_of c = fst ev \<and>
                      (entity_Schema (snd ev) = None \<longrightarrow> c = disableCommand (fst ev))"
    by blast
  from new(1) have ext: "extends w w'" and nc: "new_calls w w' = new"
    by (simp_all add: extends_def new_calls_def)
  have frame: "c = disableCommand entity \<and> \<not> is_index_call c"
    if "c \<in> set new" "coll_of c = entity" for c
    using frame_step [OF new(2) that assms] .
  have noerr: "Cause err \<noteq> ErrNoIndexesDefined entity" if "r = Some err" for err
  proof
    assume "Cause err = ErrNoIndexesDefined entity"
    from entities_loop_cause [OF loop [unfolded that] this] obtain v schema where
      v: "(entity, v) \<in> set (Entities config)" "entity_Schema v = Some schema" by blast
    from uniq [OF v(1)] v(2) assms(2) show False by simp
  qed
  have A: "extends w (snd (CreateOrUpdateMongoSchema B w config))"
    using ext run by simp
  have B: "\<forall>c\<in>set (new_calls w (snd (CreateOrUpdateMongoSchema B w config))).
            coll_of c = entity \<longrightarrow> c = disableCommand entity \<and> \<not> is_index_call c"
  proof (intro ballI impI)
    fix c
    assume "c \<in> set (new_calls w (snd (CreateOrUpdateMongoSchema B w config)))"
      and e: "coll_of c = entity"
    then have "c \<in> set new" using run nc by simp
    from frame [OF this e] show "c = disableCommand entity \<and> \<not> is_index_call c" .
  qed
  have C: "\<forall>err. fst (CreateOrUpdateMongoSchema B w config) = Some err \<longrightarrow>
            Cause err \<noteq> ErrNoIndexesDefined entity"
  proof (intro allI impI)
    fix err
    assume "fst (CreateOrUpdateMongoSchema B w config) = Some err"
    then have "r = Some err" using run by simp
    from noerr [OF this] show "Cause err \<noteq> ErrNoIndexesDefined entity" .
  qed
  from A B C show ?thesis by blast
qed


lemma cfg_two_run:
  "CreateOrUpdateMongoSchema B_ok w0 cfg_two =
     (None,
      \<lparr>db = (),
       calls = [disableCommand ''nodes'',
                Op_CreateOne ''hosts'' (model_of idx_app ''app''),
                Op_ListIndexes ''hosts'',
                disableCommand ''hosts'']\<rparr>)"
proof -
  have n: "indexName idx_app = ''SL_app''"
    by (simp add: indexName_def indexNamePrefix_def idx_app_def)
  have c: "createIndex B_ok w ''hosts'' idx_app =
     (Inr ''SL_app'',
      \<lparr>db = db w, calls = calls w @ [Op_CreateOne ''hosts'' (model_of idx_app ''app'')]\<rparr>)"
    for w :: "unit world"
    by (simp add: createIndex_def indexConfigError_def toBSONIndex_def defaultIndexDirection_def
        n model_of_def B_ok_def scripted_CreateOne Let_def)
       (simp add: idx_app_def)
  have d: "disableMongoJSONValidation B_ok w e =
     (None, \<lparr>db = db w, calls = calls w @ [disableCommand e]\<rparr>)" for w :: "unit world" and e
    by (simp add: disableMongoJSONValidation_def B_ok_def scripted_RunCommand disableCommand_def)
  have u: "updateMongoIndexes B_ok w ''hosts'' [idx_app] =
     (None, \<lparr>db = db w, calls = calls w @ [Op_CreateOne ''hosts'' (model_of idx_app ''app''),
                                            Op_ListIndexes ''hosts'']\<rparr>)"
    for w :: "unit world"
  proof -
    have e: "existingIndexes B_ok w' ''hosts'' =
       (Inr [], \<lparr>db = db w', calls = calls w' @ [Op_ListIndexes ''hosts'']\<rparr>)"
      for w' :: "unit world"
      by (simp add: existingIndexes_def B_ok_def scripted_ListIndexes)
    show ?thesis
      by (simp add: updateMongoIndexes_def c drop_obsolete_def e)
  qed
  have "entities_loop B_ok w0 (config_Global cfg_two) (Entities cfg_two) =
     (None,
      \<lparr>db = (),
       calls = [disableCommand ''nodes'',
                Op_CreateOne ''hosts'' (model_of idx_app ''app''),
                Op_ListIndexes ''hosts'',
                disableCommand ''hosts'']\<rparr>)"
    by (simp add: cfg_two_def Schema0_def d u updateMongoJSONValidation_def)
       (simp add: w0_def)
  then show ?thesis
    by (simp add: CreateOrUpdateMongoSchema_def)
qed

text \<open>
  With \<open>nodes\<close> configured without a schema and \<open>hosts\<close> with one index, the run
  succeeds and its only call on \<open>nodes\<close> disables the validator.
\<close>

theorem CreateOrUpdateMongoSchema_nil_schema_witness:
  "(''nodes'', \<lparr>entity_Schema = None\<rparr>) \<in> set (Entities cfg_two) \<and>
   distinct (map fst (Entities cfg_two)) \<and>
   fst (CreateOrUpdateMongoSchema B_ok w0 cfg_two) = None \<and>
   extends w0 (snd (CreateOrUpdateMongoSchema B_ok w0 cfg_two)) \<and>
   filter (\<lambda>c. coll_of c = ''nodes'')
     (new_calls w0 (snd (CreateOrUpdateMongoSchema B_ok w0 cfg_two))) =
     [disableCommand ''nodes'']"
proof -
  have a: "(''nodes'', \<lparr>entity_Schema = None\<rparr>) \<in> set (Entities cfg_two)"
    by (simp add: cfg_two_def)
  have b: "entity_Schema \<lparr>entity_Schema = None\<rparr> = None" by simp
  have c: "distinct (map fst (Entities cfg_two))"
    by (simp add: cfg_two_def)
  have d: "filter (\<lambda>c. coll_of c = ''nodes'')
     (new_calls w0 (snd (CreateOrUpdateMongoSchema B_ok w0 cfg_two))) =
     [disableCommand ''nodes'']"
  proof -
    have "calls w0 = []" by (simp add: w0_def)
    then show ?thesis
      by (simp add: cfg_two_run new_calls_def disableCommand_def)
  qed
  show ?thesis
    using CreateOrUpdateMongoSchema_nil_schema [OF a b c, of w0 B_ok] a c d
    by (simp add: cfg_two_run)
qed


section \<open>The language of the int-str pattern\<close>















subsection \<open>The decimal rendering of an integer\<close>





















section \<open>Insert\<close>

lemma insert_loop_append:
  "insert_loop wo (xs @ ys) ids st =
     (case insert_loop wo xs ids st of
        (ids', None, st') \<Rightarrow> insert_loop wo ys ids' st'
      | (ids', Some err, st') \<Rightarrow> (ids', Some err, st'))"
proof (induction xs arbitrary: ids st)
  case Nil
  show ?case by simp
next
  case (Cons x xs)
  show ?case
    by (cases "insert_attempt (st\<lparr>next_id := Suc (next_id st)\<rparr>) (stamp wo (next_id st) x)")
       (simp_all add: Let_def Cons.IH)
qed


text \<open>What a run of the loop leaves, whatever its outcome.\<close>

lemma insert_loop_effect:
  "insert_loop wo xs ids0 st = (ids, r, st') \<Longrightarrow>
   \<exists>new evs. ids = ids0 @ new \<and> length new \<le> length xs \<and>
     (r = None \<longrightarrow> length new = length xs) \<and>
     (r \<noteq> None \<longrightarrow> length new < length xs) \<and>
     docs st' = docs st @ map (\<lambda>(i, x). stamp wo i x) (zip new xs) \<and>
     cdc st' = cdc st @ evs \<and> map cdc_EntityId evs = new \<and>
     list_all (\<lambda>ev. cdc_Op ev = ''i'') evs"
proof (induction xs arbitrary: ids0 st)
  case Nil
  then show ?case by simp
next
  case (Cons x xs)
  let ?i = "next_id st"
  let ?st1 = "st\<lparr>next_id := Suc ?i\<rparr>"
  let ?e = "stamp wo ?i x"
  show ?case
  proof (cases "insert_attempt ?st1 ?e")
    case DupKey
    with Cons.prems have "ids = ids0" "r = Some DuplicateEntity" "st' = ?st1"
      by (simp_all add: Let_def)
    then show ?thesis by simp
  next
    case (Failed m)
    with Cons.prems have "ids = ids0" "r = Some (DbFailure m)" "st' = ?st1"
      by (simp_all add: Let_def)
    then show ?thesis by simp
  next
    case Inserted
    let ?st2 = "write_event wo ''i'' ?i 0 None (Some ?e) (?st1\<lparr>docs := docs ?st1 @ [?e]\<rparr>)"
    from Inserted Cons.prems have "insert_loop wo xs (ids0 @ [?i]) ?st2 = (ids, r, st')"
      by (simp add: Let_def)
    from Cons.IH [OF this] obtain new evs where
      n: "ids = (ids0 @ [?i]) @ new" "length new \<le> length xs"
         "r = None \<longrightarrow> length new = length xs" "r \<noteq> None \<longrightarrow> length new < length xs"
         "docs st' = docs ?st2 @ map (\<lambda>(i, x). stamp wo i x) (zip new xs)"
         "cdc st' = cdc ?st2 @ evs" "map cdc_EntityId evs = new"
         "list_all (\<lambda>ev. cdc_Op ev = ''i'') evs"
      by blast
    have d2: "docs ?st2 = docs st @ [?e]" by (simp add: write_event_def)
    obtain ev where c2: "cdc ?st2 = cdc st @ [ev]" "cdc_EntityId ev = ?i" "cdc_Op ev = ''i''"
      by (simp add: write_event_def)
    let ?new = "?i # new" and ?evs = "ev # evs"
    have "ids = ids0 @ ?new" using n(1) by simp
    moreover have "length ?new \<le> length (x # xs)" using n(2) by simp
    moreover have "r = None \<longrightarrow> length ?new = length (x # xs)" using n(3) by simp
    moreover have "r \<noteq> None \<longrightarrow> length ?new < length (x # xs)" using n(4) by simp
    moreover have "docs st' = docs st @ map (\<lambda>(i, x). stamp wo i x) (zip ?new (x # xs))"
      using n(5) d2 by simp
    moreover have "cdc st' = cdc st @ ?evs" using n(6) c2(1) by simp
    moreover have "map cdc_EntityId ?evs = ?new" using n(7) c2(2) by simp
    moreover have "list_all (\<lambda>ev. cdc_Op ev = ''i'') ?evs" using n(8) c2(3) by simp
    ultimately show ?thesis by (intro exI [of _ ?new] exI [of _ ?evs] conjI)
  qed
qed


lemma error_type_duplicate: "error_type err = ''duplicate-entity'' \<longleftrightarrow> err = DuplicateEntity"
  by (cases err) simp_all

lemma count_all: "list_all P xs \<Longrightarrow> length (filter P xs) = length xs"
  by (induction xs) auto

text \<open>
  Claim C1. In a batch accepted by the checks of \<open>Insert\<close>, when the entities before
  some entity are inserted and that entity fails with a duplicate key, the operation
  stops there: it returns the error of type \<open>duplicate-entity\<close> with the ids of the
  entities inserted before, one per entity, and the collection has gained these entities
  and nothing of the failing entity or of those after it. And whenever \<open>Insert\<close> returns
  \<open>duplicate-entity\<close>, the list of ids is shorter than the batch, and the CDC events
  emitted by the call are events of \<open>Op = "i"\<close>, one per returned id and in the same
  order.
\<close>

theorem CreateEntities_duplicate_stops:
  "(\<not> list_ex (caller_set_meta wo) (pre @ e # post) \<and>
    insert_loop wo pre [] st = (ids, None, st1) \<and>
    insert_attempt (st1\<lparr>next_id := Suc (next_id st1)\<rparr>) (stamp wo (next_id st1) e) = DupKey
    \<longrightarrow>
      CreateEntities wo (pre @ e # post) st =
        (ids, Some DuplicateEntity, st1\<lparr>next_id := Suc (next_id st1)\<rparr>) \<and>
      error_type DuplicateEntity = ''duplicate-entity'' \<and>
      length ids = length pre \<and>
      docs st1 = docs st @ map (\<lambda>(i, x). stamp wo i x) (zip ids pre)) \<and>
   (CreateEntities wo entities st = (ids', Some err, st') \<and>
    error_type err = ''duplicate-entity''
    \<longrightarrow>
      length ids' < length entities \<and>
      map cdc_EntityId (new_events st st') = ids' \<and>
      length (filter (\<lambda>ev. cdc_Op ev = ''i'') (new_events st st')) = length ids' \<and>
      length (docs st') = length (docs st) + length ids')"
proof (intro conjI impI)
  assume a: "\<not> list_ex (caller_set_meta wo) (pre @ e # post) \<and>
    insert_loop wo pre [] st = (ids, None, st1) \<and>
    insert_attempt (st1\<lparr>next_id := Suc (next_id st1)\<rparr>) (stamp wo (next_id st1) e) = DupKey"
  then have "insert_loop wo (pre @ e # post) [] st =
        (ids, Some DuplicateEntity, st1\<lparr>next_id := Suc (next_id st1)\<rparr>)"
    by (simp add: insert_loop_append Let_def)
  with a show "CreateEntities wo (pre @ e # post) st =
        (ids, Some DuplicateEntity, st1\<lparr>next_id := Suc (next_id st1)\<rparr>)"
    by (simp add: CreateEntities_def)
  show "error_type DuplicateEntity = ''duplicate-entity''" by simp
  from a have l: "insert_loop wo pre [] st = (ids, None, st1)" by simp
  from insert_loop_effect [OF l] show "length ids = length pre" by auto
  from insert_loop_effect [OF l]
  show "docs st1 = docs st @ map (\<lambda>(i, x). stamp wo i x) (zip ids pre)" by auto
next
  assume b: "CreateEntities wo entities st = (ids', Some err, st') \<and>
    error_type err = ''duplicate-entity''"
  then have err: "err = DuplicateEntity" by (simp add: error_type_duplicate)
  with b have l: "insert_loop wo entities [] st = (ids', Some err, st')"
    by (auto simp: CreateEntities_def split: if_splits)
  from insert_loop_effect [OF l] obtain evs where
    e: "length ids' < length entities"
       "docs st' = docs st @ map (\<lambda>(i, x). stamp wo i x) (zip ids' entities)"
       "cdc st' = cdc st @ evs" "map cdc_EntityId evs = ids'"
       "list_all (\<lambda>ev. cdc_Op ev = ''i'') evs"
    by auto
  from e(3) have ne: "new_events st st' = evs" by (simp add: new_events_def)
  from e(4) have le: "length evs = length ids'" by (metis length_map)
  show "length ids' < length entities" by (rule e(1))
  show "map cdc_EntityId (new_events st st') = ids'" using ne e(4) by simp
  show "length (filter (\<lambda>ev. cdc_Op ev = ''i'') (new_events st st')) = length ids'"
    using ne count_all [OF e(5)] le by simp
  show "length (docs st') = length (docs st) + length ids'"
    using e(1,2) by simp
qed


lemma store_test_insert_x5:
  "insert_loop wo_test [x5] [] store_test =
     ([4], None,
      write_event wo_test ''i'' 4 0 None (Some (stamp wo_test 4 x5))
        (store_test\<lparr>next_id := 5, docs := docs store_test @ [stamp wo_test 4 x5]\<rparr>))"
proof -
  have n: "next_id store_test = 4" by (simp add: store_test_def)
  have "insert_attempt (store_test\<lparr>next_id := 5\<rparr>) (stamp wo_test 4 x5) = Inserted"
    by (simp add: insert_attempt_def store_test_def stamp_def x5_def node1_def node2_def
        node3_def)
  then show ?thesis
    by (simp add: n Let_def)
qed

lemma store_test_dup_x6:
  "insert_attempt
     ((write_event wo_test ''i'' 4 0 None (Some (stamp wo_test 4 x5))
        (store_test\<lparr>next_id := 5, docs := docs store_test @ [stamp wo_test 4 x5]\<rparr>))
      \<lparr>next_id := 7\<rparr>) (stamp wo_test 6 x6) = DupKey"
  by (simp add: insert_attempt_def write_event_def store_test_def stamp_def x6_def node3_def)

text \<open>
  The batch of \<open>TestCreateEntitiesMultiplePartialSuccess\<close>: \<open>x = 5\<close> is inserted,
  \<open>x = 6\<close> is a duplicate, \<open>x = 7\<close> is not attempted. One id and one event come back.
\<close>

theorem CreateEntities_duplicate_stops_witness:
  "\<not> list_ex (caller_set_meta wo_test) ([x5] @ x6 # [x7]) \<and>
   fst (CreateEntities wo_test ([x5] @ x6 # [x7]) store_test) = [4] \<and>
   fst (snd (CreateEntities wo_test ([x5] @ x6 # [x7]) store_test)) = Some DuplicateEntity \<and>
   map cdc_EntityId
     (new_events store_test (snd (snd (CreateEntities wo_test ([x5] @ x6 # [x7]) store_test))))
     = [4] \<and>
   length (docs (snd (snd (CreateEntities wo_test ([x5] @ x6 # [x7]) store_test)))) = 4"
proof -
  let ?st1 = "write_event wo_test ''i'' 4 0 None (Some (stamp wo_test 4 x5))
        (store_test\<lparr>next_id := 5, docs := docs store_test @ [stamp wo_test 4 x5]\<rparr>)"
  have a: "\<not> list_ex (caller_set_meta wo_test) ([x5] @ x6 # [x7])"
    by (simp add: caller_set_meta_def x5_def x6_def x7_def)
  have n: "next_id ?st1 = 6" by (simp add: write_event_def)
  have d: "insert_attempt (?st1\<lparr>next_id := Suc (next_id ?st1)\<rparr>)
             (stamp wo_test (next_id ?st1) x6) = DupKey"
    unfolding n using store_test_dup_x6 by simp
  have l: "length (docs store_test) = 3" by (simp add: store_test_def)
  from CreateEntities_duplicate_stops
         [of wo_test "[x5]" x6 "[x7]" store_test "[4]" ?st1 "[x5] @ x6 # [x7]" "[4]"
             DuplicateEntity "?st1\<lparr>next_id := Suc (next_id ?st1)\<rparr>"]
       a store_test_insert_x5 d l
  show ?thesis by simp
qed


section \<open>DeleteLabel\<close>

lemma unset_label_find:
  "fst (unset_label i label ds) = find (\<lambda>d. d ''_id'' = Some (VObjectId i)) ds"
  by (induction ds) (auto split: prod.splits)

lemma write_event_new:
  "new_events st (write_event wo op i r old new (st\<lparr>docs := ds\<rparr>)) =
     [\<lparr>cdc_Id = next_id st, cdc_Ts = clock st, cdc_EntityId = i,
       cdc_EntityType = wo_EntityType wo, cdc_EntityRev = r, cdc_Caller = wo_Caller wo,
       cdc_Op = op, cdc_Old = old, cdc_New = new, cdc_SetId = wo_SetId wo,
       cdc_SetOp = wo_SetOp wo, cdc_SetSize = wo_SetSize wo\<rparr>]"
  by (simp add: new_events_def write_event_def)

lemma new_without_label:
  "label \<notin> set metaLabels \<Longrightarrow>
   ((d |` set (label # metaLabels))(label := None))(''_rev'' \<mapsto> x) =
   (d |` set metaLabels)(''_rev'' \<mapsto> x)"
  by (rule ext) (simp add: restrict_map_def)

text \<open>
  Claim C2, as amended. A successful \<open>DeleteLabel\<close> on an existing entity that carries
  the label (not a meta-label) returns the prior values of the label and of \<open>_id\<close>,
  \<open>_type\<close> and \<open>_rev\<close>, and emits exactly one CDC event, with \<open>Op = "u"\<close> and the
  incremented revision; its \<open>Old\<close> is the returned entity, and its \<open>New\<close> holds \<open>_id\<close>,
  \<open>_type\<close> and the incremented \<open>_rev\<close>, without the label. No other key appears in
  \<open>Old\<close> or \<open>New\<close>.
\<close>

theorem DeleteLabel_event:
  assumes "find (\<lambda>d. d ''_id'' = Some (VObjectId (wo_EntityId wo))) (docs st) = Some d"
      and "d label = Some v"
      and "label \<notin> set metaLabels"
  shows "fst (DeleteLabel wo label st) = Inr (d |` set (label # metaLabels)) \<and>
         (d |` set (label # metaLabels)) label = Some v \<and>
         new_events st (snd (DeleteLabel wo label st)) =
           [\<lparr>cdc_Id = next_id st, cdc_Ts = clock st, cdc_EntityId = wo_EntityId wo,
             cdc_EntityType = wo_EntityType wo, cdc_EntityRev = rev_of d + 1,
             cdc_Caller = wo_Caller wo, cdc_Op = ''u'',
             cdc_Old = Some (d |` set (label # metaLabels)),
             cdc_New = Some ((d |` set metaLabels)(''_rev'' \<mapsto> VInt (rev_of d + 1))),
             cdc_SetId = wo_SetId wo, cdc_SetOp = wo_SetOp wo,
             cdc_SetSize = wo_SetSize wo\<rparr>] \<and>
         ((d |` set metaLabels)(''_rev'' \<mapsto> VInt (rev_of d + 1))) label = None"
proof -
  obtain r ds where u: "unset_label (wo_EntityId wo) label (docs st) = (r, ds)"
    by (cases "unset_label (wo_EntityId wo) label (docs st)")
  with unset_label_find [of "wo_EntityId wo" label "docs st"] assms(1)
  have r: "r = Some d" by simp
  have m: "label \<noteq> ''_rev''" using assms(3) by (auto simp: metaLabels_def)
  have run: "DeleteLabel wo label st =
     (Inr (d |` set (label # metaLabels)),
      write_event wo ''u'' (wo_EntityId wo) (rev_of d + 1)
        (Some (d |` set (label # metaLabels)))
        (Some ((d |` set metaLabels)(''_rev'' \<mapsto> VInt (rev_of d + 1))))
        (st\<lparr>docs := ds\<rparr>))"
    using u r assms(3) new_without_label [OF assms(3), of d "VInt (rev_of d + 1)"]
    by (simp add: DeleteLabel_def Let_def)
  show ?thesis
    using assms(2,3) m
    by (simp add: run write_event_new)
qed

lemma node1_found:
  "find (\<lambda>d. d ''_id'' = Some (VObjectId (wo_EntityId wo_test))) (docs store_test) = Some node1"
  by (simp add: store_test_def wo_test_def node1_def)

lemma node1_foo: "node1 ''foo'' = Some (VString [])"
  by (simp add: node1_def)

lemma foo_not_meta: "''foo'' \<notin> set metaLabels"
  by (simp add: metaLabels_def)

lemma dom_node1_old:
  "dom node1 \<inter> insert ''foo'' (set metaLabels) = {''_id'', ''_type'', ''_rev'', ''foo''}"
  by (auto simp: node1_def metaLabels_def)

lemma dom_node1_new:
  "insert ''_rev'' (dom node1 \<inter> set metaLabels) = {''_id'', ''_type'', ''_rev''}"
  by (auto simp: node1_def metaLabels_def)

text \<open>
  The first node of the fixture carries \<open>foo\<close>; deleting it emits one \<open>u\<close> event of
  revision 1.
\<close>

theorem DeleteLabel_event_witness:
  "find (\<lambda>d. d ''_id'' = Some (VObjectId (wo_EntityId wo_test))) (docs store_test) = Some node1 \<and>
   node1 ''foo'' = Some (VString []) \<and> ''foo'' \<notin> set metaLabels \<and>
   fst (DeleteLabel wo_test ''foo'' store_test) = Inr (node1 |` set (''foo'' # metaLabels)) \<and>
   map cdc_Op (new_events store_test (snd (DeleteLabel wo_test ''foo'' store_test))) = [''u''] \<and>
   map cdc_EntityRev (new_events store_test (snd (DeleteLabel wo_test ''foo'' store_test))) = [1]"
proof -
  have r: "rev_of node1 = 0" by (simp add: rev_of_def node1_def)
  from DeleteLabel_event [OF node1_found node1_foo foo_not_meta] node1_found node1_foo
    foo_not_meta r
  show ?thesis by simp
qed

text \<open>
  Claim C2 as stated fails on the case of \<open>TestDeleteLabel\<close>: \<open>Old\<close> is not the
  one-entry map of the label and \<open>New\<close> is not empty; both hold the meta-labels.
\<close>

theorem DeleteLabel_event_counterexample:
  "node1 ''foo'' = Some (VString []) \<and>
   map cdc_Op (new_events store_test (snd (DeleteLabel wo_test ''foo'' store_test))) = [''u''] \<and>
   map (\<lambda>ev. map_option dom (cdc_Old ev))
     (new_events store_test (snd (DeleteLabel wo_test ''foo'' store_test))) =
     [Some {''_id'', ''_type'', ''_rev'', ''foo''}] \<and>
   map (\<lambda>ev. map_option dom (cdc_New ev))
     (new_events store_test (snd (DeleteLabel wo_test ''foo'' store_test))) =
     [Some {''_id'', ''_type'', ''_rev''}]"
proof -
  have u: "unset_label (wo_EntityId wo_test) ''foo'' (docs store_test) =
             (Some node1,
              [node1(''foo'' := None, ''_rev'' \<mapsto> VInt (rev_of node1 + 1)), node2, node3])"
    by (simp add: store_test_def wo_test_def) (simp add: node1_def)
  have run: "DeleteLabel wo_test ''foo'' store_test =
     (Inr (node1 |` set (''foo'' # metaLabels)),
      write_event wo_test ''u'' (wo_EntityId wo_test) (rev_of node1 + 1)
        (Some (node1 |` set (''foo'' # metaLabels)))
        (Some ((node1 |` set metaLabels)(''_rev'' \<mapsto> VInt (rev_of node1 + 1))))
        (store_test\<lparr>docs := [node1(''foo'' := None, ''_rev'' \<mapsto> VInt (rev_of node1 + 1)),
                                node2, node3]\<rparr>))"
    using u foo_not_meta new_without_label [OF foo_not_meta, of node1 "VInt (rev_of node1 + 1)"]
    by (simp add: DeleteLabel_def Let_def)
  show ?thesis
    by (simp add: run write_event_new node1_foo dom_node1_old dom_node1_new)
qed



section \<open>Authenticate and the trace header\<close>

lemma lookup_add_pair:
  "trace_lookup (add_pair t p) k =
     (case trace_lookup t k of
        Some v \<Rightarrow> Some v
      | None \<Rightarrow> (case cut_pair p of None \<Rightarrow> None | Some (k', v') \<Rightarrow> if k' = k then Some v' else None))"
proof (cases "cut_pair p")
  case None
  then show ?thesis
    by (simp add: add_pair_def split: option.splits)
next
  case (Some kv)
  obtain k' v' where kv: "kv = (k', v')" by (cases kv)
  show ?thesis
  proof (cases t)
    case None
    with Some kv show ?thesis
      by (simp add: add_pair_def trace_lookup_def)
  next
    case (Some m)
    with \<open>cut_pair p = Some kv\<close> kv show ?thesis
      by (auto simp: add_pair_def trace_lookup_def map_add_def split: option.splits)
  qed
qed

lemma lookup_foldl_add_pair:
  "trace_lookup (foldl add_pair t ps) k =
     (case trace_lookup t k of
        Some v \<Rightarrow> Some v
      | None \<Rightarrow> map_of (List.map_filter cut_pair ps) k)"
proof (induction ps arbitrary: t)
  case Nil
  show ?case by (simp add: map_filter_simps split: option.splits)
next
  case (Cons p ps)
  show ?case
  proof (cases "cut_pair p")
    case None
    then show ?thesis
      using Cons.IH [of "add_pair t p"] lookup_add_pair [of t p k]
      by (simp add: map_filter_simps split: option.splits)
  next
    case (Some kv)
    obtain k' v' where kv: "kv = (k', v')" by (cases kv)
    with Some show ?thesis
      using Cons.IH [of "add_pair t p"] lookup_add_pair [of t p k]
      by (simp add: map_filter_simps split: option.splits)
  qed
qed

lemma add_pair_None_iff: "add_pair t p = None \<longleftrightarrow> t = None \<and> cut_pair p = None"
  by (auto simp: add_pair_def split: option.splits)

lemma foldl_add_pair_None_iff:
  "foldl add_pair t ps = None \<longleftrightarrow> t = None \<and> List.map_filter cut_pair ps = []"
proof (induction ps arbitrary: t)
  case Nil
  show ?case by (simp add: map_filter_simps)
next
  case (Cons p ps)
  show ?case
    using Cons.IH [of "add_pair t p"]
    by (auto simp: add_pair_None_iff map_filter_simps split: option.splits)
qed

lemma header_pairs_empty: "header_pairs [] = []"
  by (simp add: header_pairs_def map_filter_simps)

text \<open>
  Claim C8. When the plugin authenticates the request, \<open>Authenticate\<close> returns the
  plugin's caller with the trace read from the \<open>X-Etre-Trace\<close> header: a key that the
  plugin set keeps the plugin's value; any other key has the value of the first
  well-formed pair \<open>key=value\<close> of the header, and the pairs without \<open>=\<close> count for
  nothing. The trace stays \<open>nil\<close> exactly when the plugin left it \<open>nil\<close> and the header
  has no well-formed pair; an empty header leaves the trace as the plugin gave it. No
  error comes from the header: without ACLs the call succeeds.
\<close>

theorem Authenticate_trace_header:
  assumes "plugin req = (caller, None)"
  shows "fst (Authenticate acls plugin req) =
           caller\<lparr>caller_Trace :=
             trace_from_header (req_Header req TRACE_HEADER) (caller_Trace caller)\<rparr> \<and>
         (\<forall>k. trace_lookup (caller_Trace (fst (Authenticate acls plugin req))) k =
                (case trace_lookup (caller_Trace caller) k of
                   Some v \<Rightarrow> Some v
                 | None \<Rightarrow> map_of (header_pairs (req_Header req TRACE_HEADER)) k)) \<and>
         (caller_Trace (fst (Authenticate acls plugin req)) = None \<longleftrightarrow>
            caller_Trace caller = None \<and> header_pairs (req_Header req TRACE_HEADER) = []) \<and>
         (req_Header req TRACE_HEADER = [] \<longrightarrow>
            caller_Trace (fst (Authenticate acls plugin req)) = caller_Trace caller) \<and>
         (acls = [] \<longrightarrow> snd (Authenticate acls plugin req) = None)"
proof -
  let ?h = "req_Header req TRACE_HEADER"
  let ?c = "caller\<lparr>caller_Trace := trace_from_header ?h (caller_Trace caller)\<rparr>"
  have r: "fst (Authenticate acls plugin req) = ?c"
    using assms by (simp add: Authenticate_def Let_def split: list.splits)
  have t: "caller_Trace ?c = trace_from_header ?h (caller_Trace caller)" by simp
  have l: "trace_lookup (trace_from_header ?h (caller_Trace caller)) k =
             (case trace_lookup (caller_Trace caller) k of
                Some v \<Rightarrow> Some v
              | None \<Rightarrow> map_of (header_pairs ?h) k)" for k
  proof (cases "?h = []")
    case True
    then show ?thesis
      by (simp add: trace_from_header_def header_pairs_empty split: option.splits)
  next
    case False
    then show ?thesis
      unfolding header_pairs_def
      by (simp add: trace_from_header_def lookup_foldl_add_pair)
  qed
  have n: "trace_from_header ?h (caller_Trace caller) = None \<longleftrightarrow>
             caller_Trace caller = None \<and> header_pairs ?h = []"
  proof (cases "?h = []")
    case True
    then show ?thesis
      by (simp add: trace_from_header_def header_pairs_empty)
  next
    case False
    then show ?thesis
      by (simp add: trace_from_header_def header_pairs_def foldl_add_pair_None_iff)
  qed
  have e: "?h = [] \<longrightarrow> trace_from_header ?h (caller_Trace caller) = caller_Trace caller"
    by (simp add: trace_from_header_def)
  have a: "acls = [] \<longrightarrow> snd (Authenticate acls plugin req) = None"
    using assms by (simp add: Authenticate_def Let_def missing_keys_def)
  show ?thesis
    unfolding r t using l n e a by simp
qed

lemma Split_app_host: "Split ''app=foo,host'' CHR '','' = [''app=foo'', ''host'']"
  by simp

lemma Split_app_host_bar:
  "Split ''app=foo,host=bar'' CHR '','' = [''app=foo'', ''host=bar'']"
  by simp

lemma cut_examples:
  "cut_pair ''app=foo'' = Some (''app'', ''foo'')" "cut_pair ''host'' = None"
  "cut_pair ''host=bar'' = Some (''host'', ''bar'')"
  by simp_all

text \<open>
  The cases of \<open>TestTraceHeader\<close>: the pair \<open>host\<close> without \<open>=\<close> is dropped and
  \<open>app=foo\<close> kept; an empty header leaves the trace \<open>nil\<close>; the plugin's value of \<open>app\<close>
  is not changed by the header, which adds \<open>host\<close>.
\<close>

theorem Authenticate_trace_header_witness:
  "allow_all (request_with ''app=foo,host'') =
     (\<lparr>caller_Name = [], caller_Roles = [], caller_MetricGroups = [''etre''],
       caller_Trace = None\<rparr>, None) \<and>
   fst (Authenticate [] allow_all (request_with ''app=foo,host'')) =
     \<lparr>caller_Name = [], caller_Roles = [], caller_MetricGroups = [''etre''],
      caller_Trace = Some [(''app'', ''foo'')]\<rparr> \<and>
   caller_Trace (fst (Authenticate [] allow_all (request_with []))) = None \<and>
   fst (Authenticate [] plugin_foo (request_with ''app=foo,host=bar'')) =
     \<lparr>caller_Name = ''foo'', caller_Roles = [], caller_MetricGroups = [],
      caller_Trace = Some [(''app'', ''do-not-change''), (''host'', ''bar'')]\<rparr>"
proof -
  have a: "allow_all req =
     (\<lparr>caller_Name = [], caller_Roles = [], caller_MetricGroups = [''etre''],
       caller_Trace = None\<rparr>, None)" for req
    by (simp add: allow_all_def)
  have p: "plugin_foo req =
     (\<lparr>caller_Name = ''foo'', caller_Roles = [], caller_MetricGroups = [],
       caller_Trace = Some [(''app'', ''do-not-change'')]\<rparr>, None)" for req
    by (simp add: plugin_foo_def)
  have h: "req_Header (request_with v) TRACE_HEADER = v" for v
    by (simp add: request_with_def)
  have t1: "trace_from_header ''app=foo,host'' None = Some [(''app'', ''foo'')]"
    by (simp add: trace_from_header_def add_pair_def)
  have t2: "trace_from_header ''app=foo,host=bar'' (Some [(''app'', ''do-not-change'')]) =
              Some [(''app'', ''do-not-change''), (''host'', ''bar'')]"
    by (simp add: trace_from_header_def add_pair_def)
  have t3: "trace_from_header [] None = None"
    by (simp add: trace_from_header_def)
  show ?thesis
    using Authenticate_trace_header [of allow_all "request_with ''app=foo,host''" _ "[]", OF a]
      Authenticate_trace_header [of allow_all "request_with []" _ "[]", OF a]
      Authenticate_trace_header [of plugin_foo "request_with ''app=foo,host=bar''" _ "[]", OF p]
    by (simp add: a h t1 t2 t3)
qed


end
